theory Spec2Isabelle
  imports Main
begin

section \<open>StateNode: a shallow embedding of packages/core/src/StateNode.ts\<close>

text \<open>
  The class \<open>StateNode\<close> is embedded as a datatype of constructed nodes, its constructor
  as a recursive function from the declarative configuration, and its getters and the
  method \<open>next\<close> as functions of a node. The functions that the class imports from
  \<open>stateUtils\<close>, \<open>utils\<close> and \<open>State\<close> are not part of \<open>StateNode.ts\<close>; they are
  the fields of the record \<open>Collaborators\<close>, and the general theorems hold for any value
  of them.
  The memo fields of \<open>__cache\<close> are left out where the cached value is a function of
  the immutable node alone; the per-event candidate cache, which \<open>next\<close> writes, is
  passed in and returned.
\<close>

subsection \<open>JavaScript values\<close>

text \<open>
  \<open>a || b\<close> on an optional string: \<open>undefined\<close> and the empty string are falsy.
\<close>

definition or_else :: "string option \<Rightarrow> string \<Rightarrow> string" where
  "or_else a b = (case a of None \<Rightarrow> b | Some s \<Rightarrow> if s = [] then b else s)"

text \<open>\<open>Array.prototype.join\<close> with a separator; an \<open>undefined\<close> separator is a comma.\<close>

fun join :: "string \<Rightarrow> string list \<Rightarrow> string" where
  "join sep [] = []"
| "join sep [x] = x"
| "join sep (x # y # ys) = x @ sep @ join sep (y # ys)"

definition join_opt :: "string option \<Rightarrow> string list \<Rightarrow> string" where
  "join_opt sep xs = join (case sep of None \<Rightarrow> '','' | Some s \<Rightarrow> s) xs"

text \<open>
  The errors raised: \<open>new Error(message)\<close>, and the \<open>TypeError\<close> that the language
  itself raises (its message depends on the engine and is not kept).
\<close>

datatype Error = Error string | TypeError

text \<open>
  A plain object is the association list of its own properties, with distinct keys in
  insertion order (JavaScript lists integer-like keys first; no property below depends on
  the order), and its prototype, which is \<open>Object.prototype\<close> unless it is replaced.
  \<open>Object_prototype_names\<close> are the members of \<open>Object.prototype\<close>: the accessor
  \<open>__proto__\<close> and eleven writable methods.

  \<open>obj_set\<close> defines or overwrites an own property, as a computed key or a spread in an
  object literal does, and as an assignment does when nothing on the prototype chain
  intervenes. \<open>own_property\<close> reads an own property. \<open>obj_get\<close> is the read \<open>o[k]\<close> of
  an object whose prototype is \<open>Object.prototype\<close>: an own property, else the inherited
  member of that name (a function, or \<open>Object.prototype\<close> itself for \<open>__proto__\<close>; both
  truthy), else \<open>undefined\<close>.
\<close>

definition Object_prototype_names :: "string list" where
  "Object_prototype_names =
     [''constructor'', ''__defineGetter__'', ''__defineSetter__'', ''hasOwnProperty'',
      ''__lookupGetter__'', ''__lookupSetter__'', ''isPrototypeOf'', ''propertyIsEnumerable'',
      ''toString'', ''valueOf'', ''__proto__'', ''toLocaleString'']"

datatype 'v Read = Own 'v | Inherited string

fun obj_set :: "(string \<times> 'v) list \<Rightarrow> string \<Rightarrow> 'v \<Rightarrow> (string \<times> 'v) list" where
  "obj_set [] k v = [(k, v)]"
| "obj_set ((k', v') # kvs) k v =
     (if k' = k then (k, v) # kvs else (k', v') # obj_set kvs k v)"

definition own_property :: "(string \<times> 'v) list \<Rightarrow> string \<Rightarrow> 'v option" where
  "own_property obj k = map_of obj k"

definition obj_get :: "(string \<times> 'v) list \<Rightarrow> string \<Rightarrow> 'v Read option" where
  "obj_get obj k =
     (case own_property obj k of
        Some v \<Rightarrow> Some (Own v)
      | None \<Rightarrow> if k \<in> set Object_prototype_names then Some (Inherited k) else None)"

text \<open>Every object, also the empty one, is truthy.\<close>

definition object_truthy :: "(string \<times> 'v) list \<Rightarrow> bool" where
  "object_truthy obj = True"

text \<open>
  \<open>new Set(xs)\<close> and \<open>Set.prototype.add\<close>, as the list of members in insertion order
  (what \<open>Array.from\<close> returns).
\<close>

definition Set_add :: "'a list \<Rightarrow> 'a \<Rightarrow> 'a list" where
  "Set_add s x = (if x \<in> set s then s else s @ [x])"

definition Set_new :: "'a list \<Rightarrow> 'a list" where
  "Set_new xs = fold (\<lambda>x s. Set_add s x) xs []"

text \<open>
  Modelled from the spec: \<open>mapValues\<close>, \<open>mapFilterValues\<close> and \<open>flatten\<close> are
  imported from \<open>utils\<close>, which is not part of \<open>StateNode.ts\<close>. Children form a mapping in
  declaration order and the lookup is populated by merging each child's own lookup upward,
  so \<open>mapValues\<close> applies the callback to each property in key order and keeps the keys;
  a parallel node's value has one entry per non-history child, so \<open>mapFilterValues\<close>
  keeps the properties whose value satisfies the predicate and maps them (the first
  callback that raises ends it); the expansions of all targets are concatenated into one
  flat configuration, so \<open>flatten\<close> concatenates.
\<close>

definition mapValues :: "(string \<times> 'a) list \<Rightarrow> ('a \<Rightarrow> string \<Rightarrow> 'b) \<Rightarrow> (string \<times> 'b) list" where
  "mapValues collection iteratee = map (\<lambda>(k, item). (k, iteratee item k)) collection"

fun sequence_values :: "(string \<times> ('e + 'b)) list \<Rightarrow> 'e + (string \<times> 'b) list" where
  "sequence_values [] = Inr []"
| "sequence_values ((k, r) # rest) =
     (case r of
        Inl e \<Rightarrow> Inl e
      | Inr v \<Rightarrow> (case sequence_values rest of Inl e \<Rightarrow> Inl e | Inr vs \<Rightarrow> Inr ((k, v) # vs)))"

definition mapFilterValues ::
  "(string \<times> 'a) list \<Rightarrow> ('a \<Rightarrow> 'e + 'b) \<Rightarrow> ('a \<Rightarrow> bool) \<Rightarrow> 'e + (string \<times> 'b) list" where
  "mapFilterValues collection iteratee predicate =
     sequence_values (map (\<lambda>(k, item). (k, iteratee item))
                        (filter (\<lambda>(k, item). predicate item) collection))"

definition flatten :: "'a list list \<Rightarrow> 'a list" where
  "flatten xss = concat xss"

lemma mapValues_cong [fundef_cong]:
  "collection = collection' \<Longrightarrow>
   (\<And>k item. (k, item) \<in> set collection' \<Longrightarrow> f item k = g item k) \<Longrightarrow>
   mapValues collection f = mapValues collection' g"
  by (auto simp: mapValues_def)

lemma mapFilterValues_cong [fundef_cong]:
  assumes "collection = collection'" and "p = p'"
    and "\<And>k item. (k, item) \<in> set collection' \<Longrightarrow> p' item \<Longrightarrow> f item = g item"
  shows "mapFilterValues collection f p = mapFilterValues collection' g p'"
proof -
  have "map (\<lambda>(k, item). (k, f item)) (filter (\<lambda>(k, item). p' item) collection')
      = map (\<lambda>(k, item). (k, g item)) (filter (\<lambda>(k, item). p' item) collection')"
    using assms(3) by (intro map_cong) auto
  then show ?thesis
    unfolding mapFilterValues_def assms(1) assms(2) by (rule arg_cong)
qed

text \<open>
  A state value is a string or an object from keys to state values; a property of the
  object may hold \<open>undefined\<close> (\<open>None\<close>).
\<close>

datatype StateValue =
    SVString string
  | SVObject "(string \<times> StateValue option) list"

text \<open>
  Truthiness of an optional state value (\<open>undefined\<close> and the empty string are falsy),
  and \<open>v || d\<close>.
\<close>

definition value_truthy :: "StateValue option \<Rightarrow> bool" where
  "value_truthy v =
     (case v of None \<Rightarrow> False | Some (SVString s) \<Rightarrow> s \<noteq> [] | Some (SVObject _) \<Rightarrow> True)"

definition value_or :: "StateValue option \<Rightarrow> StateValue \<Rightarrow> StateValue" where
  "value_or v d =
     (case v of
        None \<Rightarrow> d
      | Some (SVString s) \<Rightarrow> if s = [] then d else SVString s
      | Some (SVObject obj) \<Rightarrow> SVObject obj)"

subsection \<open>Configuration and constructed nodes\<close>

datatype NodeType = Atomic | Compound | Parallel | Final | History

datatype HistoryConfig = HistoryBool bool | HistoryShallow | HistoryDeep

text \<open>
  The fields of \<open>StateNodeConfig\<close> that the constructor reads for identity, kind,
  children and history. \<open>cfg_states\<close> is the object of child configurations.
\<close>

datatype StateNodeConfig = StateNodeConfig
  (cfg_key: "string option")
  (cfg_id: "string option")
  (cfg_delimiter: "string option")
  (cfg_type: "NodeType option")
  (cfg_initial: "string option")
  (cfg_states: "(string \<times> StateNodeConfig) list option")
  (cfg_history: "HistoryConfig option")

datatype HistoryKind = NoHistory | Shallow | Deep

text \<open>
  A constructed node. \<open>idMap\<close> holds the own properties of the lookup object and
  \<open>idMap_proto\<close> its prototype: \<open>None\<close> is \<open>Object.prototype\<close>, \<open>Some p\<close> the node
  \<open>p\<close> that an assignment to \<open>__proto__\<close> has put in its place. \<open>states\<close> holds the own
  properties of \<open>this.states\<close>, whose prototype is \<open>Object.prototype\<close>. \<open>machine_key\<close> is
  \<open>this.machine.key\<close> as the constructor reads it; the parent pointer is not stored, the
  constructor receives what it reads from it.
\<close>

datatype StateNode = StateNode
  (key: string)
  (node_id: string)
  (type: NodeType)
  (path: "string list")
  (initial: "string option")
  (states: "(string \<times> StateNode) list")
  (history: HistoryKind)
  (idMap: "(string \<times> StateNode) list")
  (idMap_proto: "StateNode option")
  (machine_key: string)
  (config: StateNodeConfig)

text \<open>
  What a child reads from \<open>options._parent\<close>: \<open>parent.machine.key\<close>,
  \<open>parent.machine.delimiter\<close> (a field that this constructor never assigns, hence
  optional) and \<open>parent.path\<close>.
\<close>

record ParentRef =
  parent_machine_key :: string
  parent_machine_delimiter :: "string option"
  parent_path :: "string list"

record StateNodeOptions =
  opt_key :: string
  opt_parent :: "ParentRef option"

definition history_truthy :: "HistoryConfig option \<Rightarrow> bool" where
  "history_truthy h = (case h of None \<Rightarrow> False | Some (HistoryBool b) \<Rightarrow> b | Some _ \<Rightarrow> True)"

text \<open>
  \<open>Object.assign(this.idMap, source)\<close> (lines 205 to 208). The source is the object
  literal \<open>{[stateNode.id]: stateNode, ...stateNode.idMap}\<close>: the computed key and the
  spread define own properties, so a child whose id is \<open>__proto__\<close> is an own property of
  the literal. \<open>Object.assign\<close> then assigns each own property of the source to the target
  with the ordinary assignment \<open>target[k] = v\<close>, which raises when it fails:
  \<^item> a key that is an own property of the target is overwritten;
  \<^item> the key \<open>__proto__\<close>, when not an own property, reaches the setter of
    \<open>Object.prototype\<close>, which replaces the target's prototype by the node and adds no
    property;
  \<^item> when the prototype has been replaced by a node, a key that names a getter of the
    class \<open>StateNode\<close> (an accessor without a setter) makes the assignment fail: a
    \<open>TypeError\<close>;
  \<^item> any other key becomes an own property (the members found on the prototype chain
    are writable data properties).
\<close>

definition StateNode_getter_names :: "string list" where
  "StateNode_getter_names =
     [''definition'', ''invoke'', ''on'', ''after'', ''transitions'', ''initialStateValue'',
      ''target'', ''stateIds'', ''events'', ''ownEvents'']"

definition idMap_source :: "StateNode \<Rightarrow> (string \<times> StateNode) list" where
  "idMap_source stateNode =
     fold (\<lambda>(k, v) literal. obj_set literal k v) (idMap stateNode)
       [(node_id stateNode, stateNode)]"

definition assign_property ::
  "StateNode option \<times> (string \<times> StateNode) list \<Rightarrow> string \<times> StateNode \<Rightarrow>
   Error + StateNode option \<times> (string \<times> StateNode) list" where
  "assign_property target kv =
     (case (target, kv) of
        ((proto, own), (k, v)) \<Rightarrow>
          if k \<in> fst ` set own then Inr (proto, obj_set own k v)
          else if k = ''__proto__'' then Inr (Some v, own)
          else if proto \<noteq> None \<and> k \<in> set StateNode_getter_names then Inl TypeError
          else Inr (proto, obj_set own k v))"

fun Object_assign ::
  "StateNode option \<times> (string \<times> StateNode) list \<Rightarrow> (string \<times> StateNode) list \<Rightarrow>
   Error + StateNode option \<times> (string \<times> StateNode) list" where
  "Object_assign target [] = Inr target"
| "Object_assign target (kv # src) =
     (case assign_property target kv of
        Inl e \<Rightarrow> Inl e
      | Inr target' \<Rightarrow> Object_assign target' src)"

text \<open>
  The calls of the callback of \<open>mapValues\<close> (lines 200 to 210), child by child: the
  child's constructor, which may raise, then the assignment into \<open>this.idMap\<close>, which may
  raise. The result is the children built and the lookup.
\<close>

fun merge_children ::
  "(string \<times> (Error + StateNode)) list \<Rightarrow>
   (string \<times> StateNode) list \<times> StateNode option \<times> (string \<times> StateNode) list \<Rightarrow>
   Error + (string \<times> StateNode) list \<times> StateNode option \<times> (string \<times> StateNode) list" where
  "merge_children [] acc = Inr acc"
| "merge_children ((k, built) # rest) (sts, this_idMap) =
     (case built of
        Inl e \<Rightarrow> Inl e
      | Inr stateNode \<Rightarrow>
          (case Object_assign this_idMap (idMap_source stateNode) of
             Inl e \<Rightarrow> Inl e
           | Inr this_idMap' \<Rightarrow> merge_children rest (sts @ [(k, stateNode)], this_idMap')))"

lemma size_in_pairs:
  "(k, c) \<in> set kvs \<Longrightarrow> size c < Suc (size_list (size_prod (\<lambda>_. 0) size) kvs)"
  by (induction kvs) auto

text \<open>
  The constructor (lines 166 to 236), in the order of its statements. \<open>isMachine\<close> is
  computed from \<open>this.parent\<close> on line 173, before line 174 assigns the field, so it
  reads the field's initial \<open>undefined\<close>. The first argument is the constant
  \<open>STATE_DELIMITER\<close> of \<open>constants\<close>; \<open>cfg\<close> is \<open>this.config\<close>. The constructor
  raises when a child's constructor or an assignment into the lookup raises. The fields
  \<open>isTransient\<close>, \<open>entry\<close>, \<open>exit\<close>, \<open>meta\<close> and \<open>data\<close>, which no function below
  reads, are left out.
\<close>

function new_StateNode ::
  "string \<Rightarrow> StateNodeConfig \<Rightarrow> StateNodeOptions \<Rightarrow> Error + StateNode" where
  "new_StateNode STATE_DELIMITER (StateNodeConfig ck ci cd ct cinit cs ch) options =
    (let cfg = StateNodeConfig ck ci cd ct cinit cs ch;
         this_parent = (None :: ParentRef option);
         isMachine = (this_parent = None);
         this_parent = opt_parent options;
         this_key = or_else (cfg_key cfg) (opt_key options);
         this_machine_key =
           (case this_parent of Some p \<Rightarrow> parent_machine_key p | None \<Rightarrow> this_key);
         this_machine_delimiter =
           (case this_parent of Some p \<Rightarrow> parent_machine_delimiter p | None \<Rightarrow> None);
         this_path = (case this_parent of Some p \<Rightarrow> parent_path p @ [this_key] | None \<Rightarrow> []);
         this_id = or_else (cfg_id cfg)
           (if isMachine
            then join (or_else (cfg_delimiter cfg) STATE_DELIMITER) (this_machine_key # this_path)
            else join_opt this_machine_delimiter (this_machine_key # this_path));
         this_type = (case cfg_type cfg of
             Some t \<Rightarrow> t
           | None \<Rightarrow>
              (if (case cfg_states cfg of Some ss \<Rightarrow> length ss \<noteq> 0 | None \<Rightarrow> False)
               then Compound
               else if history_truthy (cfg_history cfg) then History
               else Atomic));
         this_initial = cfg_initial cfg;
         self = \<lparr>parent_machine_key = this_machine_key,
                 parent_machine_delimiter = this_machine_delimiter,
                 parent_path = this_path\<rparr>;
         built = (case cfg_states cfg of
             Some ss \<Rightarrow> mapValues ss (\<lambda>stateConfig k.
                 new_StateNode STATE_DELIMITER stateConfig
                   \<lparr>opt_key = k, opt_parent = Some self\<rparr>)
           | None \<Rightarrow> []);
         this_history = (case cfg_history cfg of
             Some (HistoryBool True) \<Rightarrow> Shallow
           | Some HistoryShallow \<Rightarrow> Shallow
           | Some HistoryDeep \<Rightarrow> Deep
           | _ \<Rightarrow> NoHistory)
     in case merge_children built ([], None, []) of
          Inl e \<Rightarrow> Inl e
        | Inr (this_states, this_idMap_proto, this_idMap) \<Rightarrow>
            Inr (StateNode this_key this_id this_type this_path this_initial this_states
                   this_history this_idMap this_idMap_proto this_machine_key cfg))"
  by pat_completeness auto
termination
  by (relation "measure (\<lambda>(d, cfg, opts). size cfg)") (auto dest: size_in_pairs)

subsection \<open>Transitions, states, events and the imported functions\<close>

text \<open>
  A guard descriptor has the fields \<open>name\<close> and \<open>type\<close>, which the error message of
  \<open>next\<close> reads, and the caller's predicate. A transition definition has the fields that
  \<open>next\<close> and \<open>ownEvents\<close> read; \<open>stateIn\<close> is its field \<open>in\<close>, and \<open>target\<close> is
  \<open>undefined\<close> or the list of target nodes. Of a state, \<open>next\<close> reads \<open>value\<close>
  (\<open>state_value\<close>), \<open>context\<close> (\<open>state_context\<close>) and \<open>historyValue\<close>; of an event, its
  \<open>name\<close>.
\<close>

record 'p Guard =
  guard_name :: "string option"
  guard_type :: string
  predicate :: 'p

record ('p, 'a) TransitionDefinition =
  eventType :: string
  cond :: "'p Guard option"
  stateIn :: "StateValue option"
  target :: "StateNode list option"
  actions :: "'a list"
  internal :: bool

record 'c State =
  state_value :: "StateValue option"
  state_context :: 'c
  historyValue :: "string \<Rightarrow> StateNode list option"

record 'e SCXML_Event =
  name :: string
  data :: 'e

text \<open>
  What the \<open>catch\<close> clause of \<open>next\<close> can observe of the value a guard throws: the
  value is \<open>null\<close> or \<open>undefined\<close>, so that reading its \<open>message\<close> raises a
  \<open>TypeError\<close>; or its \<open>message\<close> converts to the given string in the template (the
  string \<open>undefined\<close> when the value has no message); or reading or converting its
  \<open>message\<close> raises the given error.
\<close>

datatype Thrown = ThrownNullish | ThrownMessage string | ThrownUnreadable Error

text \<open>
  The functions that the class imports and that \<open>StateNode.ts\<close> does not define: from
  \<open>stateUtils\<close>, \<open>formatTransitions\<close>, \<open>getCandidates\<close>, \<open>evaluateGuard\<close>,
  \<open>getRelativeStateNodes\<close>, \<open>nodesFromChild\<close>, \<open>isStateId\<close>, \<open>getStateNodeById\<close> and
  \<open>isLeafNode\<close>; from \<open>utils\<close>, \<open>toStateValue\<close> (of a path or of a state value),
  \<open>matchesState\<close> and \<open>path\<close> (\<open>utils_path\<close>); the method \<open>matches\<close> of \<open>State\<close>; and
  the field \<open>delimiter\<close> of the machine, which \<open>MachineNode\<close> declares. They are total
  functions, except \<open>evaluateGuard\<close>: its result is \<open>Inl thrown\<close> when the call throws,
  the one exception that \<open>next\<close> catches. \<open>isLeafNode\<close> is applied to what
  \<open>this.states[this.initial]\<close> reads, a child or an inherited member.
\<close>

record ('p, 'a, 'c, 'e) Collaborators =
  formatTransitions :: "StateNode \<Rightarrow> ('p, 'a) TransitionDefinition list"
  getCandidates :: "StateNode \<Rightarrow> string \<Rightarrow> ('p, 'a) TransitionDefinition list"
  evaluateGuard ::
    "StateNode \<Rightarrow> 'p Guard \<Rightarrow> 'c \<Rightarrow> 'e SCXML_Event \<Rightarrow> 'c State \<Rightarrow> Thrown + bool"
  getRelativeStateNodes :: "StateNode \<Rightarrow> 'c State \<Rightarrow> StateNode list"
  nodesFromChild :: "StateNode \<Rightarrow> StateNode \<Rightarrow> StateNode list"
  isStateId :: "string \<Rightarrow> bool"
  getStateNodeById :: "StateNode \<Rightarrow> string \<Rightarrow> StateNode"
  toStateValue :: "string list + StateValue \<Rightarrow> string \<Rightarrow> StateValue"
  matches :: "'c State \<Rightarrow> StateValue \<Rightarrow> bool"
  matchesState :: "StateValue \<Rightarrow> StateValue option \<Rightarrow> bool"
  utils_path :: "string list \<Rightarrow> StateValue option \<Rightarrow> StateValue option"
  isLeafNode :: "StateNode Read \<Rightarrow> bool"
  machine_delimiter :: string

text \<open>The object that \<open>next\<close> returns; \<open>actions_out\<close> is its field \<open>actions\<close>.\<close>

record ('p, 'a, 'c) StateTransition =
  transitions :: "('p, 'a) TransitionDefinition list"
  configuration :: "StateNode list"
  entrySet :: "StateNode list"
  exitSet :: "StateNode list"
  source :: "'c State"
  actions_out :: "'a list"

text \<open>
  The in-condition of a candidate (lines 382 to 396): true when \<open>in\<close> is absent or
  falsy; by id when it is a string that \<open>isStateId\<close> accepts; else against the state's
  value at the path of the node without its last two keys (\<open>slice(0, -2)\<close>).
\<close>

definition isInState ::
  "('p, 'a, 'c, 'e) Collaborators \<Rightarrow> StateNode \<Rightarrow> 'c State \<Rightarrow> ('p, 'a) TransitionDefinition \<Rightarrow> bool" where
  "isInState env this state candidate =
    (case stateIn candidate of
       None \<Rightarrow> True
     | Some sIn \<Rightarrow>
         if \<not> value_truthy (Some sIn) then True
         else (case sIn of
             SVString s \<Rightarrow>
               if isStateId env s
               then matches env state
                      (toStateValue env (Inl (path (getStateNodeById env this s)))
                         (machine_delimiter env))
               else matchesState env
                      (toStateValue env (Inr (SVString s)) (machine_delimiter env))
                      (utils_path env (take (length (path this) - 2) (path this))
                         (state_value state))
           | SVObject obj \<Rightarrow>
               matchesState env
                 (toStateValue env (Inr (SVObject obj)) (machine_delimiter env))
                 (utils_path env (take (length (path this) - 2) (path this))
                    (state_value state))))"

text \<open>
  The guard of a candidate (lines 398 to 411): the guards invoked, at most one, and the
  value of \<open>guardPassed\<close> or the error that leaves the \<open>catch\<close> clause. The clause
  builds the message of \<open>guard_error_message\<close> from \<open>err.message\<close> and raises an
  \<open>Error\<close> with it; when the value thrown is \<open>null\<close> or \<open>undefined\<close> the read of
  \<open>err.message\<close> raises a \<open>TypeError\<close> instead, and when the message cannot be read or
  converted, the error of that attempt.
\<close>

definition guard_error_message :: "'p Guard \<Rightarrow> string \<Rightarrow> string \<Rightarrow> string \<Rightarrow> string" where
  "guard_error_message c eventName this_id err_message =
     ''Unable to evaluate guard '' @ [CHR 0x27] @ or_else (guard_name c) (guard_type c) @ [CHR 0x27]
       @ '' in transition for event '' @ [CHR 0x27] @ eventName @ [CHR 0x27]
       @ '' in state node '' @ [CHR 0x27] @ this_id @ [CHR 0x27] @ '':'' @ [CHR 0x0A] @ err_message"

definition catch_clause :: "'p Guard \<Rightarrow> string \<Rightarrow> string \<Rightarrow> Thrown \<Rightarrow> Error" where
  "catch_clause c eventName this_id err =
     (case err of
        ThrownNullish \<Rightarrow> TypeError
      | ThrownUnreadable e \<Rightarrow> e
      | ThrownMessage err_message \<Rightarrow>
          Error (guard_error_message c eventName this_id err_message))"

definition try_guard ::
  "('p, 'a, 'c, 'e) Collaborators \<Rightarrow> StateNode \<Rightarrow> 'c State \<Rightarrow> 'e SCXML_Event \<Rightarrow>
   ('p, 'a) TransitionDefinition \<Rightarrow> 'p Guard list \<times> (Error + bool)" where
  "try_guard env this state ev candidate =
    (let resolvedContext = state_context state
     in case cond candidate of
          None \<Rightarrow> ([], Inr True)
        | Some c \<Rightarrow>
            ([c], case evaluateGuard env this c resolvedContext ev state of
                    Inl err \<Rightarrow> Inl (catch_clause c (name ev) (node_id this) err)
                  | Inr passed \<Rightarrow> Inr passed))"

text \<open>
  The loop over the candidates (lines 378 to 421): the guards invoked, in order, and
  either the error raised or the variables \<open>nextStateNodes\<close>, \<open>actions\<close> and
  \<open>selectedTransition\<close> when the loop ends.
\<close>

fun select_candidate ::
  "('p, 'a, 'c, 'e) Collaborators \<Rightarrow> StateNode \<Rightarrow> 'c State \<Rightarrow> 'e SCXML_Event \<Rightarrow>
   ('p, 'a) TransitionDefinition list \<Rightarrow>
   'p Guard list \<times> (Error + StateNode list \<times> 'a list \<times> ('p, 'a) TransitionDefinition option)" where
  "select_candidate env this state ev [] = ([], Inr ([], [], None))"
| "select_candidate env this state ev (candidate # rest) =
    (let inState = isInState env this state candidate
     in case try_guard env this state ev candidate of
          (calls, Inl e) \<Rightarrow> (calls, Inl e)
        | (calls, Inr guardPassed) \<Rightarrow>
            if guardPassed \<and> inState
            then (calls, Inr ((case target candidate of Some t \<Rightarrow> t | None \<Rightarrow> []),
                              actions candidate, Some candidate))
            else (case select_candidate env this state ev rest of
                    (calls', r) \<Rightarrow> (calls @ calls', r)))"

text \<open>
  The outcome of a call of \<open>next\<close>: the candidate cache of the node after the call,
  the guards invoked during the call in order, and the value returned (\<open>None\<close> is
  \<open>undefined\<close>) or the error raised. \<open>candidates_loop\<close> is the method from the loop
  on (lines 378 to 461), for the candidates that line 375 has read and the cache as that
  line leaves it.
\<close>

record ('p, 'a, 'c) NextOutcome =
  candidates_cache :: "string \<Rightarrow> ('p, 'a) TransitionDefinition list option"
  guard_calls :: "'p Guard list"
  returned :: "Error + ('p, 'a, 'c) StateTransition option"

definition candidates_loop ::
  "('p, 'a, 'c, 'e) Collaborators \<Rightarrow> StateNode \<Rightarrow>
   (string \<Rightarrow> ('p, 'a) TransitionDefinition list option) \<Rightarrow>
   'c State \<Rightarrow> 'e SCXML_Event \<Rightarrow> ('p, 'a) TransitionDefinition list \<Rightarrow> ('p, 'a, 'c) NextOutcome" where
  "candidates_loop env this cache' state ev candidates =
     (case select_candidate env this state ev candidates of
            (calls, Inl e) \<Rightarrow> \<lparr>candidates_cache = cache', guard_calls = calls, returned = Inl e\<rparr>
          | (calls, Inr (nextStateNodes, acts, None)) \<Rightarrow>
              \<lparr>candidates_cache = cache', guard_calls = calls, returned = Inr None\<rparr>
          | (calls, Inr (nextStateNodes, acts, Some selectedTransition)) \<Rightarrow>
              if length nextStateNodes = 0
              then \<lparr>candidates_cache = cache', guard_calls = calls,
                    returned = Inr (Some \<lparr>transitions = [selectedTransition],
                        configuration = (if value_truthy (state_value state) then [this] else []),
                        entrySet = [], exitSet = [], source = state, actions_out = acts\<rparr>)\<rparr>
              else
                let allNextStateNodes =
                      flatten (map (\<lambda>stateNode. getRelativeStateNodes env stateNode state)
                                 nextStateNodes);
                    isInternal = internal selectedTransition;
                    reentryNodes =
                      (if isInternal then []
                       else flatten (map (\<lambda>nextStateNode. nodesFromChild env this nextStateNode)
                                       allNextStateNodes))
                in \<lparr>candidates_cache = cache', guard_calls = calls,
                     returned = Inr (Some \<lparr>transitions = [selectedTransition],
                        configuration = allNextStateNodes,
                        entrySet = reentryNodes,
                        exitSet = (if isInternal then [] else [this]),
                        source = state, actions_out = acts\<rparr>)\<rparr>)"

text \<open>
  The method \<open>next\<close> (lines 353 to 461), up to the loop.

  The cache \<open>this.__cache.candidates\<close> is a plain object, given by its own properties.
  \<open>cache_read\<close> is the read \<open>this.__cache.candidates[eventName]\<close> of lines 375: an own
  list, else the member of \<open>Object.prototype\<close> with the event's name, else \<open>undefined\<close>.
  An inherited member is truthy, so \<open>getCandidates\<close> is not called and nothing is stored;
  it is not iterable, so the loop of line 378 raises a \<open>TypeError\<close>.
\<close>

definition cache_read ::
  "(string \<Rightarrow> 'x option) \<Rightarrow> string \<Rightarrow> 'x Read option" where
  "cache_read cache eventName =
     (case cache eventName of
        Some cs \<Rightarrow> Some (Own cs)
      | None \<Rightarrow>
          if eventName \<in> set Object_prototype_names then Some (Inherited eventName) else None)"

definition StateNode_next ::
  "('p, 'a, 'c, 'e) Collaborators \<Rightarrow> StateNode \<Rightarrow>
   (string \<Rightarrow> ('p, 'a) TransitionDefinition list option) \<Rightarrow>
   'c State \<Rightarrow> 'e SCXML_Event \<Rightarrow> ('p, 'a, 'c) NextOutcome" where
  "StateNode_next env this cache state ev =
    (if type this = History \<and> historyValue state (node_id this) \<noteq> None
     then \<lparr>candidates_cache = cache, guard_calls = [],
           returned = Inr (Some \<lparr>transitions = [],
                                  configuration = the (historyValue state (node_id this)),
                                  entrySet = [], exitSet = [], source = state,
                                  actions_out = []\<rparr>)\<rparr>
     else
       let eventName = name ev;
           (candidates, cache') =
              (case cache_read cache eventName of
                 Some cached \<Rightarrow> (cached, cache)
               | None \<Rightarrow> (Own (getCandidates env this eventName),
                           cache(eventName \<mapsto> getCandidates env this eventName)))
       in case candidates of
            Inherited member \<Rightarrow>
              \<lparr>candidates_cache = cache', guard_calls = [], returned = Inl TypeError\<rparr>
          | Own candidates \<Rightarrow> candidates_loop env this cache' state ev candidates)"

text \<open>
  The getters \<open>transitions\<close> (lines 334 to 340), \<open>ownEvents\<close> (lines 563 to 577) and
  \<open>events\<close> (lines 537 to 556). \<open>this.states\<close> is the object of the mapped children or
  \<open>EMPTY_OBJECT\<close>, so both tests of \<open>events\<close> are tests of an object.
\<close>

definition transitions_of ::
  "('p, 'a, 'c, 'e) Collaborators \<Rightarrow> StateNode \<Rightarrow> ('p, 'a) TransitionDefinition list" where
  "transitions_of env this = formatTransitions env this"

definition ownEvents :: "('p, 'a, 'c, 'e) Collaborators \<Rightarrow> StateNode \<Rightarrow> string list" where
  "ownEvents env this =
     Set_new (map eventType
       (filter (\<lambda>transition.
            \<not> (target transition = None \<and> length (actions transition) = 0 \<and> internal transition))
          (transitions_of env this)))"

function events :: "('p, 'a, 'c, 'e) Collaborators \<Rightarrow> StateNode \<Rightarrow> string list" where
  "events env (StateNode k i t p ini sts h im ip mk cfg) =
    (let this = StateNode k i t p ini sts h im ip mk cfg;
         evs = Set_new (ownEvents env this)
     in if object_truthy (states this)
        then fold (\<lambda>(stateId, state) evs.
                     if object_truthy (states state)
                     then fold (\<lambda>event evs. Set_add evs event) (events env state) evs
                     else evs)
               (states this) evs
        else evs)"
  by pat_completeness auto
termination
  by (relation "measure (\<lambda>(env, n). size n)") (auto dest: size_in_pairs)

text \<open>
  The getter \<open>initialStateValue\<close> (lines 463 to 493); \<open>Inr None\<close> is \<open>undefined\<close>,
  \<open>Inl\<close> the error raised. The test of line 477 reads \<open>this.states[this.initial]\<close>
  through the prototype chain: for an initial key that names no child but a member of
  \<open>Object.prototype\<close> it reads that member, which is truthy, so no error is raised;
  \<open>isLeafNode\<close> is applied to the member, and the member has no \<open>initialStateValue\<close>.
\<close>

function initialStateValue ::
  "('p, 'a, 'c, 'e) Collaborators \<Rightarrow> StateNode \<Rightarrow> Error + StateValue option" where
  "initialStateValue env (StateNode k i t p ini sts h im ip mk cfg) =
    (let this = StateNode k i t p ini sts h im ip mk cfg in
     if type this = Parallel
     then (case mapFilterValues (states this)
                  (\<lambda>state. case initialStateValue env state of
                             Inl e \<Rightarrow> Inl e
                           | Inr v \<Rightarrow> Inr (Some (value_or v (SVObject []))))
                  (\<lambda>stateNode. \<not> (type stateNode = History)) of
             Inl e \<Rightarrow> Inl e
           | Inr obj \<Rightarrow> Inr (Some (SVObject obj)))
     else (case initial this of
             Some init \<Rightarrow>
               (case obj_get (states this) init of
                  None \<Rightarrow> Inl (Error (''Initial state '' @ [CHR 0x27] @ init @ [CHR 0x27]
                                       @ '' not found on '' @ [CHR 0x27] @ key this @ [CHR 0x27]))
                | Some found \<Rightarrow>
                    if isLeafNode env found then Inr (Some (SVString init))
                    else (case found of
                            Own child \<Rightarrow>
                              (case initialStateValue env child of
                                 Inl e \<Rightarrow> Inl e
                               | Inr v \<Rightarrow> Inr (Some (SVObject [(init, v)])))
                          | Inherited member \<Rightarrow> Inr (Some (SVObject [(init, None)]))))
           | None \<Rightarrow> Inr None))"
  by pat_completeness auto
termination
  by (relation "measure (\<lambda>(env, n). size n)")
     (auto dest!: map_of_SomeD dest: size_in_pairs
           simp: obj_get_def own_property_def split: option.splits if_splits)

subsection \<open>Notions for stating the properties of next\<close>

text \<open>
  A candidate's guard holds when it is absent or evaluates to \<open>true\<close>; it throws when
  it is present and its evaluation throws. \<open>candidate_passes\<close> says that the guard holds
  and that the loop's test of the in-condition (\<open>isInState\<close>) is true. \<open>guards_of\<close> are
  the guards of a list of candidates in order. \<open>candidates_for\<close> is what \<open>next\<close>
  iterates for the event: the own list of the cache under the event's name, else a
  \<open>TypeError\<close> when the name is that of a member of \<open>Object.prototype\<close>, else the list
  that \<open>getCandidates\<close> computes. \<open>history_recorded\<close> is the test of line 357.
\<close>

definition guard_holds ::
  "('p, 'a, 'c, 'e) Collaborators \<Rightarrow> StateNode \<Rightarrow> 'c State \<Rightarrow> 'e SCXML_Event \<Rightarrow>
   ('p, 'a) TransitionDefinition \<Rightarrow> bool" where
  "guard_holds env this state ev c =
     (case cond c of
        None \<Rightarrow> True
      | Some g \<Rightarrow> evaluateGuard env this g (state_context state) ev state = Inr True)"

definition guard_throws ::
  "('p, 'a, 'c, 'e) Collaborators \<Rightarrow> StateNode \<Rightarrow> 'c State \<Rightarrow> 'e SCXML_Event \<Rightarrow>
   ('p, 'a) TransitionDefinition \<Rightarrow> bool" where
  "guard_throws env this state ev c =
     (case cond c of
        None \<Rightarrow> False
      | Some g \<Rightarrow> isl (evaluateGuard env this g (state_context state) ev state))"

definition candidate_passes ::
  "('p, 'a, 'c, 'e) Collaborators \<Rightarrow> StateNode \<Rightarrow> 'c State \<Rightarrow> 'e SCXML_Event \<Rightarrow>
   ('p, 'a) TransitionDefinition \<Rightarrow> bool" where
  "candidate_passes env this state ev c =
     (guard_holds env this state ev c \<and> isInState env this state c)"

definition guards_of :: "('p, 'a) TransitionDefinition list \<Rightarrow> 'p Guard list" where
  "guards_of cs = List.map_filter cond cs"

definition candidates_for ::
  "('p, 'a, 'c, 'e) Collaborators \<Rightarrow> StateNode \<Rightarrow>
   (string \<Rightarrow> ('p, 'a) TransitionDefinition list option) \<Rightarrow> 'e SCXML_Event \<Rightarrow>
   Error + ('p, 'a) TransitionDefinition list" where
  "candidates_for env this cache ev =
     (case cache (name ev) of
        Some cs \<Rightarrow> Inr cs
      | None \<Rightarrow>
          if name ev \<in> set Object_prototype_names then Inl TypeError
          else Inr (getCandidates env this (name ev)))"

definition history_recorded :: "StateNode \<Rightarrow> 'c State \<Rightarrow> bool" where
  "history_recorded this state = (type this = History \<and> historyValue state (node_id this) \<noteq> None)"

text \<open>
  The in-condition as the specification words it, written without reference to the loop:
  it holds when it is absent (or empty); when it references an absolute state id, it is
  membership by the snapshot's matching predicate against the path of the node with that
  id; otherwise the snapshot's value at the ancestor two levels above the node is matched
  against the condition's pattern. A candidate passes as specified when its guard holds
  and its in-condition holds in this sense.
\<close>

definition two_levels_above :: "string list \<Rightarrow> string list" where
  "two_levels_above p = butlast (butlast p)"

definition in_condition_holds ::
  "('p, 'a, 'c, 'e) Collaborators \<Rightarrow> StateNode \<Rightarrow> 'c State \<Rightarrow> ('p, 'a) TransitionDefinition \<Rightarrow> bool" where
  "in_condition_holds env this state c =
     (case stateIn c of
        None \<Rightarrow> True
      | Some (SVString s) \<Rightarrow>
          if s = [] then True
          else if isStateId env s
          then matches env state
                 (toStateValue env (Inl (path (getStateNodeById env this s))) (machine_delimiter env))
          else matchesState env (toStateValue env (Inr (SVString s)) (machine_delimiter env))
                 (utils_path env (two_levels_above (path this)) (state_value state))
      | Some (SVObject pattern) \<Rightarrow>
          matchesState env (toStateValue env (Inr (SVObject pattern)) (machine_delimiter env))
            (utils_path env (two_levels_above (path this)) (state_value state)))"

definition passes_as_specified ::
  "('p, 'a, 'c, 'e) Collaborators \<Rightarrow> StateNode \<Rightarrow> 'c State \<Rightarrow> 'e SCXML_Event \<Rightarrow>
   ('p, 'a) TransitionDefinition \<Rightarrow> bool" where
  "passes_as_specified env this state ev c =
     (guard_holds env this state ev c \<and> in_condition_holds env this state c)"

subsection \<open>Target expansion and entry nodes, from the specification\<close>

text \<open>
  \<open>chain_to root n\<close> are the nodes from the root of a tree down to the node \<open>n\<close>, in that
  order, or the empty list when \<open>n\<close> is not a node of the tree.
\<close>

function chain_to :: "StateNode \<Rightarrow> StateNode \<Rightarrow> StateNode list" where
  "chain_to (StateNode k i t p ini sts h im ip mk cfg) n =
     (let this = StateNode k i t p ini sts h im ip mk cfg
      in if this = n then [this]
         else (case filter (\<lambda>chain. chain \<noteq> [])
                      (map (\<lambda>(key, child). chain_to child n) sts) of
                 [] \<Rightarrow> []
               | chain # others \<Rightarrow> this # chain))"
  by pat_completeness auto
termination
  by (relation "measure (\<lambda>(root, n). size root)") (auto dest: size_in_pairs)

text \<open>
  Modelled from the spec: \<open>nodesFromChild\<close> is imported from \<open>stateUtils\<close>, which is not
  part of \<open>StateNode.ts\<close>. The entry set is the set of nodes on the path from \<open>N\<close> down to
  each resolved leaf target that must be (re-)entered, the exit set \<open>{N}\<close> being the
  boundary at which ancestors above \<open>N\<close> are unaffected. So the nodes for one leaf are
  the nodes from the root down to the leaf without the ancestors above \<open>N\<close>, in that
  order.
\<close>

definition nodes_on_path :: "StateNode \<Rightarrow> StateNode \<Rightarrow> StateNode \<Rightarrow> StateNode list" where
  "nodes_on_path root N leaf =
     filter (\<lambda>node. node \<notin> set (butlast (chain_to root N))) (chain_to root leaf)"

text \<open>
  Modelled from the spec: \<open>getRelativeStateNodes\<close> is imported from \<open>stateUtils\<close>, which
  is not part of \<open>StateNode.ts\<close>. Each target node is expanded downward to a full
  leaf-reaching configuration: atomic and final nodes expand to themselves. The expansion
  of the other kinds (initial or already active child, all children, history) is left to
  the function given.
\<close>

definition expand_target ::
  "(StateNode \<Rightarrow> 'c State \<Rightarrow> StateNode list) \<Rightarrow> StateNode \<Rightarrow> 'c State \<Rightarrow> StateNode list" where
  "expand_target others stateNode state =
     (if type stateNode = Atomic \<or> type stateNode = Final then [stateNode]
      else others stateNode state)"

text \<open>
  The collaborators with these two functions in the place of the imported ones, for the
  machine with the given root.
\<close>

definition as_specified ::
  "StateNode \<Rightarrow> ('p, 'a, 'c, 'e) Collaborators \<Rightarrow> ('p, 'a, 'c, 'e) Collaborators" where
  "as_specified root env =
     env\<lparr>getRelativeStateNodes := expand_target (getRelativeStateNodes env),
         nodesFromChild := nodes_on_path root\<rparr>"

subsection \<open>Notions for stating the properties of the tree\<close>

text \<open>
  \<open>descendants\<close> lists the nodes strictly below a node, in document order.
  \<open>idMap_ok\<close> says that the lookup of a node has distinct keys, that its keys are the
  ids of the descendants other than \<open>__proto__\<close>, and that every entry maps its key to a
  descendant with that id.
\<close>

fun descendants :: "StateNode \<Rightarrow> StateNode list" where
  "descendants (StateNode k i t p ini sts h im ip mk cfg) =
     concat (map (\<lambda>(key, child). child # descendants child) sts)"

definition idMap_ok :: "StateNode \<Rightarrow> bool" where
  "idMap_ok n =
     (distinct (map fst (idMap n))
      \<and> fst ` set (idMap n) = node_id ` set (descendants n) - {''__proto__''}
      \<and> (\<forall>(k, v) \<in> set (idMap n). v \<in> set (descendants n) \<and> node_id v = k))"

subsection \<open>Sample machines\<close>

text \<open>
  The machine \<open>toggle\<close> has the root compound node with the children \<open>idle\<close> (initial)
  and \<open>active\<close>; \<open>player\<close> has a history child \<open>h\<close>. Both are built by the constructor
  with the delimiter \<open>.\<close>. \<open>sample_collaborators\<close> is one instance of the imported
  functions: the transitions of \<open>idle\<close> are \<open>sample_transitions\<close>, a guard carries its own
  outcome (a boolean, or what it throws), a target expands to itself, and a string
  in-condition that is not an id holds when it equals the state's value.
\<close>

definition leaf_config :: StateNodeConfig where
  "leaf_config = StateNodeConfig None None None None None None None"

definition root_options :: "string \<Rightarrow> StateNodeOptions" where
  "root_options k = \<lparr>opt_key = k, opt_parent = None\<rparr>"

definition toggle_config :: StateNodeConfig where
  "toggle_config =
     StateNodeConfig (Some ''toggle'') None None None (Some ''idle'')
       (Some [(''idle'', leaf_config), (''active'', leaf_config)]) None"

definition toggle_machine :: StateNode where
  "toggle_machine = projr (new_StateNode ''.'' toggle_config (root_options ''toggle''))"

definition toggle_idle :: StateNode where
  "toggle_idle = the (own_property (states toggle_machine) ''idle'')"

definition toggle_active :: StateNode where
  "toggle_active = the (own_property (states toggle_machine) ''active'')"

definition start_transition :: "('p, 'a) TransitionDefinition" where
  "start_transition =
     \<lparr>eventType = ''START'', cond = None, stateIn = None, target = Some [toggle_active],
      actions = [], internal = False\<rparr>"

definition sample_guard :: "string \<Rightarrow> Thrown + bool \<Rightarrow> (Thrown + bool) Guard" where
  "sample_guard n outcome = \<lparr>guard_name = Some n, guard_type = ''xstate.guard'', predicate = outcome\<rparr>"

definition go_elsewhere :: "(Thrown + bool, string) TransitionDefinition" where
  "go_elsewhere =
     \<lparr>eventType = ''GO'', cond = Some (sample_guard ''g0'' (Inr True)),
      stateIn = Some (SVString ''elsewhere''), target = Some [toggle_active],
      actions = [''a0''], internal = False\<rparr>"

definition go_refused :: "(Thrown + bool, string) TransitionDefinition" where
  "go_refused =
     \<lparr>eventType = ''GO'', cond = Some (sample_guard ''g1'' (Inr False)), stateIn = None,
      target = Some [toggle_active], actions = [''a1''], internal = False\<rparr>"

definition go_taken :: "(Thrown + bool, string) TransitionDefinition" where
  "go_taken =
     \<lparr>eventType = ''GO'', cond = Some (sample_guard ''g2'' (Inr True)),
      stateIn = Some (SVString ''idle''), target = Some [toggle_idle], actions = [''a2''],
      internal = False\<rparr>"

definition go_late :: "(Thrown + bool, string) TransitionDefinition" where
  "go_late =
     \<lparr>eventType = ''GO'', cond = Some (sample_guard ''g3'' (Inr True)), stateIn = None,
      target = Some [toggle_active], actions = [''a3''], internal = False\<rparr>"

definition ping_transition :: "(Thrown + bool, string) TransitionDefinition" where
  "ping_transition =
     \<lparr>eventType = ''PING'', cond = None, stateIn = None, target = None,
      actions = [''log''], internal = True\<rparr>"

definition boom_guarded :: "(Thrown + bool, string) TransitionDefinition" where
  "boom_guarded =
     \<lparr>eventType = ''BOOM'', cond = Some (sample_guard ''g4'' (Inl (ThrownMessage ''broken''))),
      stateIn = Some (SVString ''elsewhere''), target = Some [toggle_active], actions = [],
      internal = False\<rparr>"

definition boom_open :: "(Thrown + bool, string) TransitionDefinition" where
  "boom_open =
     \<lparr>eventType = ''BOOM'', cond = None, stateIn = None, target = Some [toggle_active],
      actions = [], internal = False\<rparr>"

definition sample_transitions :: "(Thrown + bool, string) TransitionDefinition list" where
  "sample_transitions =
     [start_transition, go_elsewhere, go_refused, go_taken, go_late, ping_transition,
      boom_guarded, boom_open]"

definition sample_collaborators :: "(Thrown + bool, string, unit, unit) Collaborators" where
  "sample_collaborators =
     \<lparr>formatTransitions = (\<lambda>n. if node_id n = ''toggle.idle'' then sample_transitions else []),
      getCandidates = (\<lambda>n e. filter (\<lambda>t. eventType t = e)
                          (if node_id n = ''toggle.idle'' then sample_transitions else [])),
      evaluateGuard = (\<lambda>n g c e s. predicate g),
      getRelativeStateNodes = (\<lambda>n s. [n]),
      nodesFromChild = (\<lambda>n c. [c]),
      isStateId = (\<lambda>s. take 1 s = ''#''),
      getStateNodeById = (\<lambda>n s. n),
      toStateValue = (\<lambda>x d. case x of Inl p \<Rightarrow> SVString (join d p) | Inr v \<Rightarrow> v),
      matches = (\<lambda>s v. state_value s = Some v),
      matchesState = (\<lambda>a b. b = Some a),
      utils_path = (\<lambda>p v. v),
      isLeafNode = (\<lambda>found. case found of
                       Own n \<Rightarrow> type n = Atomic \<or> type n = Final
                     | Inherited member \<Rightarrow> False),
      machine_delimiter = ''.''\<rparr>"

definition state_at_idle :: "unit State" where
  "state_at_idle = \<lparr>state_value = Some (SVString ''idle''), state_context = (),
                     historyValue = Map.empty\<rparr>"

definition sample_event :: "string \<Rightarrow> unit SCXML_Event" where
  "sample_event n = \<lparr>name = n, data = ()\<rparr>"

definition history_config :: StateNodeConfig where
  "history_config =
     StateNodeConfig (Some ''player'') None None None None
       (Some [(''h'', StateNodeConfig None None None None None None (Some (HistoryBool True)))])
       None"

definition history_node :: StateNode where
  "history_node =
     the (own_property
            (states (projr (new_StateNode ''.'' history_config (root_options ''player''))))
            ''h'')"

definition state_with_history :: "unit State" where
  "state_with_history =
     \<lparr>state_value = Some (SVString ''idle''), state_context = (),
      historyValue = [''player.h'' \<mapsto> [toggle_idle, toggle_active]]\<rparr>"

text \<open>
  Two further instances: one in which every node has, for every event, one candidate of
  that event's type without guard or in-condition; one in which the only candidate has a
  guard that throws \<open>null\<close>.
\<close>

definition open_transition :: "string \<Rightarrow> (Thrown + bool, string) TransitionDefinition" where
  "open_transition e =
     \<lparr>eventType = e, cond = None, stateIn = None, target = Some [toggle_active],
      actions = [], internal = False\<rparr>"

definition open_collaborators :: "(Thrown + bool, string, unit, unit) Collaborators" where
  "open_collaborators = sample_collaborators\<lparr>getCandidates := (\<lambda>n e. [open_transition e])\<rparr>"

definition null_guard_transition :: "(Thrown + bool, string) TransitionDefinition" where
  "null_guard_transition =
     \<lparr>eventType = ''NULL'', cond = Some (sample_guard ''gn'' (Inl ThrownNullish)),
      stateIn = None, target = Some [toggle_active], actions = [], internal = False\<rparr>"

definition null_collaborators :: "(Thrown + bool, string, unit, unit) Collaborators" where
  "null_collaborators = sample_collaborators\<lparr>getCandidates := (\<lambda>n e. [null_guard_transition])\<rparr>"

text \<open>
  Further configurations: two children with the same explicit id; a child with the id
  \<open>__proto__\<close>, alone and followed by a child with the id \<open>events\<close>; a compound node with
  no initial key; one whose initial key names no child; a node without children whose
  initial key is \<open>toString\<close>; a root with the delimiter \<open>/\<close>; a child with the delimiter
  \<open>-\<close>.
\<close>

definition twin_config :: StateNodeConfig where
  "twin_config =
     StateNodeConfig (Some ''m'') None None None None
       (Some [(''a'', StateNodeConfig None (Some ''x'') None None None None None),
              (''b'', StateNodeConfig None (Some ''x'') None None None None None)])
       None"

definition proto_config :: StateNodeConfig where
  "proto_config =
     StateNodeConfig (Some ''m'') None None None None
       (Some [(''a'', StateNodeConfig None (Some ''__proto__'') None None None None None),
              (''b'', leaf_config)])
       None"

definition proto_events_config :: StateNodeConfig where
  "proto_events_config =
     StateNodeConfig (Some ''m'') None None None None
       (Some [(''a'', StateNodeConfig None (Some ''__proto__'') None None None None None),
              (''b'', StateNodeConfig None (Some ''events'') None None None None None)])
       None"

definition no_initial_config :: StateNodeConfig where
  "no_initial_config =
     StateNodeConfig (Some ''m'') None None None None (Some [(''a'', leaf_config)]) None"

definition missing_child_config :: StateNodeConfig where
  "missing_child_config =
     StateNodeConfig (Some ''m'') None None None (Some ''zz'') (Some [(''a'', leaf_config)]) None"

definition inherited_initial_config :: StateNodeConfig where
  "inherited_initial_config =
     StateNodeConfig (Some ''m'') None None None (Some ''toString'') None None"

definition no_initial_machine :: StateNode where
  "no_initial_machine = projr (new_StateNode ''.'' no_initial_config (root_options ''m''))"

definition missing_child_machine :: StateNode where
  "missing_child_machine = projr (new_StateNode ''.'' missing_child_config (root_options ''m''))"

definition inherited_initial_machine :: StateNode where
  "inherited_initial_machine =
     projr (new_StateNode ''.'' inherited_initial_config (root_options ''m''))"

definition slash_config :: StateNodeConfig where
  "slash_config =
     StateNodeConfig (Some ''m'') None (Some ''/'') None (Some ''a'')
       (Some [(''a'', StateNodeConfig None None None None (Some ''b'')
                         (Some [(''b'', leaf_config)]) None)])
       None"

definition dash_child_config :: StateNodeConfig where
  "dash_child_config =
     StateNodeConfig (Some ''m'') None None None (Some ''a'')
       (Some [(''a'', StateNodeConfig None None (Some ''-'') None (Some ''b'')
                         (Some [(''b'', leaf_config)]) None)])
       None"

section \<open>Candidate selection and the result of next\<close>

lemma guards_of_Nil [simp]: "guards_of [] = []"
  by (simp add: guards_of_def map_filter_simps)

lemma guards_of_Cons:
  "guards_of (c # cs) = (case cond c of None \<Rightarrow> [] | Some g \<Rightarrow> [g]) @ guards_of cs"
  by (simp add: guards_of_def map_filter_simps split: option.splits)

lemma guards_of_append: "guards_of (xs @ ys) = guards_of xs @ guards_of ys"
  by (simp add: guards_of_def map_filter_def)

text \<open>The loop's test of the in-condition is the in-condition as specified.\<close>

lemma slice_two_levels: "take (length p - 2) p = two_levels_above p"
proof -
  have m: "min (length p - 1 - 1) (length p - 1) = length p - 2"
    by arith
  have "butlast (butlast p) = take (length p - 1 - 1) (take (length p - 1) p)"
    by (simp add: butlast_conv_take)
  also have "\<dots> = take (length p - 2) p"
    unfolding take_take m ..
  finally show ?thesis
    by (simp add: two_levels_above_def)
qed

lemma isInState_as_specified:
  "isInState env this state c = in_condition_holds env this state c"
proof (cases "stateIn c")
  case None
  then show ?thesis
    by (simp add: isInState_def in_condition_holds_def)
next
  case (Some sIn)
  then show ?thesis
    by (cases sIn)
       (simp_all add: isInState_def in_condition_holds_def value_truthy_def slice_two_levels)
qed

lemma passes_as_specified_iff:
  "passes_as_specified env this state ev c = candidate_passes env this state ev c"
  by (simp add: passes_as_specified_def candidate_passes_def isInState_as_specified)

lemma try_guard_calls: "fst (try_guard env this state ev c) = guards_of [c]"
  by (simp add: try_guard_def guards_of_Cons split: option.splits)

lemma try_guard_passes:
  "guard_holds env this state ev c \<Longrightarrow> snd (try_guard env this state ev c) = Inr True"
  by (auto simp: try_guard_def guard_holds_def split: option.splits)

lemma try_guard_fails:
  "\<not> guard_holds env this state ev c \<Longrightarrow> \<not> guard_throws env this state ev c \<Longrightarrow>
   snd (try_guard env this state ev c) = Inr False"
  by (auto simp: try_guard_def guard_holds_def guard_throws_def split: option.splits sum.splits)

lemma try_guard_throws:
  "cond c = Some g \<Longrightarrow> evaluateGuard env this g (state_context state) ev state = Inl err \<Longrightarrow>
   try_guard env this state ev c = ([g], Inl (catch_clause g (name ev) (node_id this) err))"
  by (simp add: try_guard_def)

lemma select_passing:
  assumes "candidate_passes env this state ev c"
  shows "select_candidate env this state ev (c # post) =
           (guards_of [c],
            Inr ((case target c of Some t \<Rightarrow> t | None \<Rightarrow> []), actions c, Some c))"
proof -
  obtain calls r where tg: "try_guard env this state ev c = (calls, r)"
    by (cases "try_guard env this state ev c")
  from assms have "r = Inr True" and "isInState env this state c"
    using try_guard_passes[of env this state ev c] tg by (auto simp: candidate_passes_def)
  moreover have "calls = guards_of [c]"
    using try_guard_calls[of env this state ev c] tg by simp
  ultimately show ?thesis
    using tg by simp
qed

lemma select_skips:
  assumes "\<not> candidate_passes env this state ev c" and "\<not> guard_throws env this state ev c"
  shows "select_candidate env this state ev (c # rest) =
           (guards_of [c] @ fst (select_candidate env this state ev rest),
            snd (select_candidate env this state ev rest))"
proof -
  obtain calls r where tg: "try_guard env this state ev c = (calls, r)"
    by (cases "try_guard env this state ev c")
  have calls: "calls = guards_of [c]"
    using try_guard_calls[of env this state ev c] tg by simp
  show ?thesis
  proof (cases "guard_holds env this state ev c")
    case True
    then have "r = Inr True" and "\<not> isInState env this state c"
      using try_guard_passes[of env this state ev c] tg assms(1)
      by (auto simp: candidate_passes_def)
    then show ?thesis using tg calls by (simp split: prod.splits)
  next
    case False
    then have "r = Inr False"
      using try_guard_fails[of env this state ev c] tg assms(2) by simp
    then show ?thesis using tg calls by (simp split: prod.splits)
  qed
qed

lemma select_throwing:
  assumes "cond c = Some g"
    and "evaluateGuard env this g (state_context state) ev state = Inl err"
  shows "select_candidate env this state ev (c # post) =
           ([g], Inl (catch_clause g (name ev) (node_id this) err))"
  using try_guard_throws[OF assms] by simp

lemma select_prefix:
  assumes "\<forall>c \<in> set pre. \<not> candidate_passes env this state ev c \<and> \<not> guard_throws env this state ev c"
  shows "select_candidate env this state ev (pre @ rest) =
           (guards_of pre @ fst (select_candidate env this state ev rest),
            snd (select_candidate env this state ev rest))"
  using assms
proof (induction pre)
  case Nil
  then show ?case by simp
next
  case (Cons c pre)
  then have "select_candidate env this state ev ((c # pre) @ rest) =
      (guards_of [c] @ fst (select_candidate env this state ev (pre @ rest)),
       snd (select_candidate env this state ev (pre @ rest)))"
    using select_skips[of env this state ev c "pre @ rest"] by simp
  with Cons show ?case
    by (simp add: guards_of_Cons)
qed

lemma select_calls_prefix:
  "\<exists>n. fst (select_candidate env this state ev cs) = guards_of (take n cs)"
proof (induction cs)
  case Nil
  then show ?case by simp
next
  case (Cons c cs)
  then obtain n where n: "fst (select_candidate env this state ev cs) = guards_of (take n cs)"
    by blast
  obtain calls r where tg: "try_guard env this state ev c = (calls, r)"
    by (cases "try_guard env this state ev c")
  have calls: "calls = guards_of [c]"
    using try_guard_calls[of env this state ev c] tg by simp
  have one: "guards_of [c] = guards_of (take (Suc 0) (c # cs))"
    by simp
  have more: "guards_of [c] @ guards_of (take n cs) = guards_of (take (Suc n) (c # cs))"
    by (simp add: guards_of_Cons)
  have "fst (select_candidate env this state ev (c # cs)) = guards_of [c]
      \<or> fst (select_candidate env this state ev (c # cs)) = guards_of [c] @ guards_of (take n cs)"
    using tg calls n by (auto split: sum.splits prod.splits)
  then show ?case
    using one more by metis
qed

lemma next_past_history:
  assumes "\<not> history_recorded this state"
  shows "StateNode_next env this cache state ev =
    (let eventName = name ev;
         (candidates, cache') =
            (case cache_read cache eventName of
               Some cached \<Rightarrow> (cached, cache)
             | None \<Rightarrow> (Own (getCandidates env this eventName),
                         cache(eventName \<mapsto> getCandidates env this eventName)))
     in case candidates of
          Inherited member \<Rightarrow>
            \<lparr>candidates_cache = cache', guard_calls = [], returned = Inl TypeError\<rparr>
        | Own candidates \<Rightarrow> candidates_loop env this cache' state ev candidates)"
proof -
  have nh: "(type this = History \<and> historyValue state (node_id this) \<noteq> None) = False"
    using assms by (simp add: history_recorded_def)
  show ?thesis
    unfolding StateNode_next_def nh if_False ..
qed

lemma next_iterates:
  assumes "\<not> history_recorded this state"
    and "candidates_for env this cache ev = Inr cs"
  shows "\<exists>cache'. StateNode_next env this cache state ev = candidates_loop env this cache' state ev cs"
proof (cases "cache (name ev)")
  case None
  with assms(2) have "name ev \<notin> set Object_prototype_names"
    and "cs = getCandidates env this (name ev)"
    by (auto simp: candidates_for_def split: if_splits)
  with None have "StateNode_next env this cache state ev =
      candidates_loop env this (cache(name ev \<mapsto> cs)) state ev cs"
    unfolding next_past_history[OF assms(1)] by (simp add: cache_read_def Let_def)
  then show ?thesis by blast
next
  case (Some cached)
  with assms(2) have "cs = cached"
    by (simp add: candidates_for_def)
  with Some have "StateNode_next env this cache state ev = candidates_loop env this cache state ev cs"
    unfolding next_past_history[OF assms(1)] by (simp add: cache_read_def Let_def)
  then show ?thesis by blast
qed

lemma next_not_iterable:
  assumes "\<not> history_recorded this state"
    and "candidates_for env this cache ev = Inl e"
  shows "StateNode_next env this cache state ev =
           \<lparr>candidates_cache = cache, guard_calls = [], returned = Inl TypeError\<rparr>"
proof (cases "cache (name ev)")
  case None
  with assms(2) have "name ev \<in> set Object_prototype_names"
    by (auto simp: candidates_for_def split: if_splits)
  with None show ?thesis
    unfolding next_past_history[OF assms(1)] by (simp add: cache_read_def Let_def)
next
  case (Some cached)
  with assms(2) show ?thesis
    by (simp add: candidates_for_def)
qed

lemma next_unfold:
  assumes "\<not> history_recorded this state"
    and "candidates_for env this cache ev = Inr cs"
  shows "guard_calls (StateNode_next env this cache state ev)
           = fst (select_candidate env this state ev cs)"
    and "snd (select_candidate env this state ev cs) = Inl e \<Longrightarrow>
         returned (StateNode_next env this cache state ev) = Inl e"
    and "snd (select_candidate env this state ev cs) = Inr (ns, acts, None) \<Longrightarrow>
         returned (StateNode_next env this cache state ev) = Inr None"
    and "snd (select_candidate env this state ev cs) = Inr (ns, acts, Some t) \<Longrightarrow>
         returned (StateNode_next env this cache state ev) =
           Inr (Some (if length ns = 0
              then \<lparr>transitions = [t],
                    configuration = (if value_truthy (state_value state) then [this] else []),
                    entrySet = [], exitSet = [], source = state, actions_out = acts\<rparr>
              else \<lparr>transitions = [t],
                    configuration =
                      flatten (map (\<lambda>stateNode. getRelativeStateNodes env stateNode state) ns),
                    entrySet = (if internal t then []
                      else flatten (map (\<lambda>nextStateNode. nodesFromChild env this nextStateNode)
                             (flatten (map (\<lambda>stateNode. getRelativeStateNodes env stateNode state) ns)))),
                    exitSet = (if internal t then [] else [this]),
                    source = state, actions_out = acts\<rparr>))"
proof -
  from next_iterates[OF assms] obtain cache' where
    eq: "StateNode_next env this cache state ev = candidates_loop env this cache' state ev cs" ..
  show "guard_calls (StateNode_next env this cache state ev)
           = fst (select_candidate env this state ev cs)"
    unfolding eq
    by (auto simp: candidates_loop_def Let_def split: prod.splits sum.splits option.splits)
  show "snd (select_candidate env this state ev cs) = Inl e \<Longrightarrow>
         returned (StateNode_next env this cache state ev) = Inl e"
    unfolding eq
    by (auto simp: candidates_loop_def Let_def split: prod.splits sum.splits option.splits)
  show "snd (select_candidate env this state ev cs) = Inr (ns, acts, None) \<Longrightarrow>
         returned (StateNode_next env this cache state ev) = Inr None"
    unfolding eq
    by (auto simp: candidates_loop_def Let_def split: prod.splits sum.splits option.splits)
  show "snd (select_candidate env this state ev cs) = Inr (ns, acts, Some t) \<Longrightarrow>
         returned (StateNode_next env this cache state ev) =
           Inr (Some (if length ns = 0
              then \<lparr>transitions = [t],
                    configuration = (if value_truthy (state_value state) then [this] else []),
                    entrySet = [], exitSet = [], source = state, actions_out = acts\<rparr>
              else \<lparr>transitions = [t],
                    configuration =
                      flatten (map (\<lambda>stateNode. getRelativeStateNodes env stateNode state) ns),
                    entrySet = (if internal t then []
                      else flatten (map (\<lambda>nextStateNode. nodesFromChild env this nextStateNode)
                             (flatten (map (\<lambda>stateNode. getRelativeStateNodes env stateNode state) ns)))),
                    exitSet = (if internal t then [] else [this]),
                    source = state, actions_out = acts\<rparr>))"
    unfolding eq
    by (auto simp: candidates_loop_def Let_def split: prod.splits sum.splits option.splits)
qed

lemma select_selected_shape:
  "snd (select_candidate env this state ev cs) = Inr (ns, acts, Some t) \<Longrightarrow>
   ns = (case target t of Some ts \<Rightarrow> ts | None \<Rightarrow> []) \<and> acts = actions t \<and> t \<in> set cs"
proof (induction cs)
  case Nil
  then show ?case by simp
next
  case (Cons c cs)
  obtain calls r where tg: "try_guard env this state ev c = (calls, r)"
    by (cases "try_guard env this state ev c")
  show ?case
  proof (cases r)
    case (Inl e)
    with Cons.prems tg show ?thesis by simp
  next
    case (Inr passed)
    show ?thesis
    proof (cases "passed \<and> isInState env this state c")
      case True
      with Cons.prems tg Inr show ?thesis by auto
    next
      case False
      with Cons.prems tg Inr
      have "snd (select_candidate env this state ev cs) = Inr (ns, acts, Some t)"
        by (auto split: prod.splits)
      with Cons.IH show ?thesis by simp
    qed
  qed
qed

lemma next_selected:
  assumes "returned (StateNode_next env this cache state ev) = Inr (Some r)"
    and "transitions r = [t]"
  shows "\<not> history_recorded this state
       \<and> (\<exists>cs. candidates_for env this cache ev = Inr cs
             \<and> snd (select_candidate env this state ev cs)
                 = Inr ((case target t of Some ts \<Rightarrow> ts | None \<Rightarrow> []), actions t, Some t))"
proof -
  have nh: "\<not> history_recorded this state"
  proof
    assume "history_recorded this state"
    then have "returned (StateNode_next env this cache state ev)
        = Inr (Some \<lparr>transitions = [], configuration = the (historyValue state (node_id this)),
                      entrySet = [], exitSet = [], source = state, actions_out = []\<rparr>)"
      by (simp add: StateNode_next_def history_recorded_def)
    with assms show False by auto
  qed
  show ?thesis
  proof (cases "candidates_for env this cache ev")
    case (Inl e)
    from next_not_iterable[OF nh Inl] assms(1) show ?thesis by simp
  next
    case (Inr cs)
    obtain calls res where sel: "select_candidate env this state ev cs = (calls, res)"
      by (cases "select_candidate env this state ev cs")
    show ?thesis
    proof (cases res)
      case (Inl e)
      then have "snd (select_candidate env this state ev cs) = Inl e"
        using sel by simp
      from next_unfold(2)[OF nh Inr this] assms show ?thesis by simp
    next
      case res: (Inr triple)
      obtain ns acts sel_opt where triple: "triple = (ns, acts, sel_opt)"
        by (cases triple)
      show ?thesis
      proof (cases sel_opt)
        case None
        then have "snd (select_candidate env this state ev cs) = Inr (ns, acts, None)"
          using sel res triple by simp
        from next_unfold(3)[OF nh Inr this] assms show ?thesis by simp
      next
        case (Some t')
        have snd_sel: "snd (select_candidate env this state ev cs) = Inr (ns, acts, Some t')"
          using sel res triple Some by simp
        from next_unfold(4)[OF nh Inr snd_sel] assms have "t' = t"
          by (auto split: if_splits)
        with select_selected_shape[OF snd_sel] snd_sel nh Inr show ?thesis by simp
      qed
    qed
  qed
qed

subsection \<open>The sample machines evaluated\<close>

lemma assign_property_eval:
  "assign_property (proto, own) (k, v) =
     (if k \<in> fst ` set own then Inr (proto, obj_set own k v)
      else if k = ''__proto__'' then Inr (Some v, own)
      else if proto \<noteq> None \<and> k \<in> set StateNode_getter_names then Inl TypeError
      else Inr (proto, obj_set own k v))"
  by (simp add: assign_property_def)

lemmas constructor_eval = Let_def or_else_def mapValues_def history_truthy_def idMap_source_def
  assign_property_eval StateNode_getter_names_def root_options_def leaf_config_def

lemma toggle_machine_built:
  "new_StateNode ''.'' toggle_config (root_options ''toggle'') = Inr
     (StateNode ''toggle'' ''toggle'' Compound [] (Some ''idle'')
       [(''idle'', StateNode ''idle'' ''toggle.idle'' Atomic [''idle''] None [] NoHistory [] None
                    ''toggle'' leaf_config),
        (''active'', StateNode ''active'' ''toggle.active'' Atomic [''active''] None [] NoHistory []
                    None ''toggle'' leaf_config)]
       NoHistory
       [(''toggle.idle'', StateNode ''idle'' ''toggle.idle'' Atomic [''idle''] None [] NoHistory []
                    None ''toggle'' leaf_config),
        (''toggle.active'', StateNode ''active'' ''toggle.active'' Atomic [''active''] None []
                    NoHistory [] None ''toggle'' leaf_config)]
       None ''toggle'' toggle_config)"
  by (simp add: toggle_config_def constructor_eval)

lemma toggle_machine_eval:
  "toggle_machine =
     StateNode ''toggle'' ''toggle'' Compound [] (Some ''idle'')
       [(''idle'', StateNode ''idle'' ''toggle.idle'' Atomic [''idle''] None [] NoHistory [] None
                    ''toggle'' leaf_config),
        (''active'', StateNode ''active'' ''toggle.active'' Atomic [''active''] None [] NoHistory []
                    None ''toggle'' leaf_config)]
       NoHistory
       [(''toggle.idle'', StateNode ''idle'' ''toggle.idle'' Atomic [''idle''] None [] NoHistory []
                    None ''toggle'' leaf_config),
        (''toggle.active'', StateNode ''active'' ''toggle.active'' Atomic [''active''] None []
                    NoHistory [] None ''toggle'' leaf_config)]
       None ''toggle'' toggle_config"
  by (simp add: toggle_machine_def toggle_machine_built)

lemma toggle_idle_eval:
  "toggle_idle = StateNode ''idle'' ''toggle.idle'' Atomic [''idle''] None [] NoHistory [] None
                    ''toggle'' leaf_config"
  by (simp add: toggle_idle_def toggle_machine_eval own_property_def)

lemma toggle_active_eval:
  "toggle_active = StateNode ''active'' ''toggle.active'' Atomic [''active''] None [] NoHistory []
                    None ''toggle'' leaf_config"
  by (simp add: toggle_active_def toggle_machine_eval own_property_def)

lemma history_node_eval:
  "history_node = StateNode ''h'' ''player.h'' History [''h''] None [] Shallow [] None ''player''
      (StateNodeConfig None None None None None None (Some (HistoryBool True)))"
  by (simp add: history_node_def history_config_def constructor_eval own_property_def)

lemma sample_not_history: "\<not> history_recorded toggle_idle state_at_idle"
  by (simp add: history_recorded_def toggle_idle_eval)

lemma sample_eval_guard:
  "evaluateGuard sample_collaborators n g c e s = predicate g"
  by (simp add: sample_collaborators_def)

lemmas sample_transition_defs = start_transition_def go_elsewhere_def go_refused_def
  go_taken_def go_late_def ping_transition_def boom_guarded_def boom_open_def

lemma sample_candidates_GO:
  "candidates_for sample_collaborators toggle_idle Map.empty (sample_event ''GO'') =
     Inr [go_elsewhere, go_refused, go_taken, go_late]"
  by (simp add: candidates_for_def Object_prototype_names_def sample_collaborators_def
        sample_event_def toggle_idle_eval sample_transitions_def sample_transition_defs)

lemma sample_candidates_BOOM:
  "candidates_for sample_collaborators toggle_idle Map.empty (sample_event ''BOOM'') =
     Inr ([] @ boom_guarded # [boom_open])"
  by (simp add: candidates_for_def Object_prototype_names_def sample_collaborators_def
        sample_event_def toggle_idle_eval sample_transitions_def sample_transition_defs)

lemma null_candidates:
  "candidates_for null_collaborators toggle_idle Map.empty (sample_event ''NULL'') =
     Inr ([] @ null_guard_transition # [])"
  by (simp add: candidates_for_def Object_prototype_names_def null_collaborators_def
        sample_event_def)

lemmas next_eval = StateNode_next_def candidates_loop_def cache_read_def
  Object_prototype_names_def try_guard_def catch_clause_def isInState_def value_truthy_def
  flatten_def Let_def sample_event_def state_at_idle_def

lemma sample_next_PING:
  "returned (StateNode_next sample_collaborators toggle_idle Map.empty state_at_idle
               (sample_event ''PING''))
     = Inr (Some \<lparr>transitions = [ping_transition],
                   configuration = [toggle_idle], entrySet = [], exitSet = [],
                   source = state_at_idle, actions_out = [''log'']\<rparr>)"
  by (simp add: next_eval sample_collaborators_def toggle_idle_eval sample_transitions_def
        sample_transition_defs)

lemma sample_next_GO:
  "returned (StateNode_next sample_collaborators toggle_idle Map.empty state_at_idle
               (sample_event ''GO''))
     = Inr (Some \<lparr>transitions = [go_taken],
                   configuration = [toggle_idle], entrySet = [toggle_idle],
                   exitSet = [toggle_idle], source = state_at_idle, actions_out = [''a2'']\<rparr>)"
  by (simp add: next_eval sample_collaborators_def sample_transitions_def
        sample_transition_defs sample_guard_def)
     (simp add: toggle_idle_eval)


text \<open>
  C2. For a history node whose id has a recorded configuration in the state's history
  value, \<open>next\<close> returns at once, for any event and any collaborators: no transitions, the
  recorded configuration, empty entry set, exit set and actions. No candidate is looked up
  (the candidate cache is returned unchanged) and no guard is evaluated.
\<close>
theorem history_short_circuit:
  assumes "type this = History" and "historyValue state (node_id this) = Some recorded"
  shows "StateNode_next env this cache state ev =
           \<lparr>candidates_cache = cache, guard_calls = [],
            returned = Inr (Some \<lparr>transitions = [], configuration = recorded, entrySet = [],
                                   exitSet = [], source = state, actions_out = []\<rparr>)\<rparr>"
  using assms by (simp add: StateNode_next_def)

theorem history_short_circuit_witness:
  "StateNode_next sample_collaborators history_node Map.empty state_with_history
     (sample_event ''GO'') =
   \<lparr>candidates_cache = Map.empty, guard_calls = [],
    returned = Inr (Some \<lparr>transitions = [], configuration = [toggle_idle, toggle_active],
                           entrySet = [], exitSet = [], source = state_with_history,
                           actions_out = []\<rparr>)\<rparr>"
proof -
  have h1: "type history_node = History"
    by (simp add: history_node_eval)
  have h2: "historyValue state_with_history (node_id history_node)
              = Some [toggle_idle, toggle_active]"
    by (simp add: history_node_eval state_with_history_def)
  from history_short_circuit[OF h1 h2] show ?thesis .
qed

text \<open>
  C1, as amended. When \<open>next\<close> reaches the loop with the list \<open>cs\<close> of candidates for
  the event's type (the history return of line 357 does not apply, and line 375 yields the
  list) and no guard raises before a candidate passes, it selects the first candidate of
  \<open>cs\<close> whose guard (true if absent) and in-condition (true if absent) both hold, the
  in-condition being the one the specification words, or returns \<open>undefined\<close> when there
  is none. The guards invoked are exactly those of the candidates up to and including the
  selected one, each once and in order; no later candidate is evaluated. In every case
  the guards invoked are those of an initial segment of \<open>cs\<close>, in order.
\<close>
theorem next_selects_first_passing_candidate:
  assumes "\<not> history_recorded this state"
    and "candidates_for env this cache ev = Inr cs"
    and "\<forall>c \<in> set (takeWhile (\<lambda>c. \<not> passes_as_specified env this state ev c) cs).
           \<not> guard_throws env this state ev c"
  shows "(case List.find (passes_as_specified env this state ev) cs of
            None \<Rightarrow> returned (StateNode_next env this cache state ev) = Inr None
          | Some c \<Rightarrow> (\<exists>r. returned (StateNode_next env this cache state ev) = Inr (Some r)
                          \<and> transitions r = [c]))
       \<and> guard_calls (StateNode_next env this cache state ev) =
           guards_of (takeWhile (\<lambda>c. \<not> passes_as_specified env this state ev c) cs
                      @ take 1 (dropWhile (\<lambda>c. \<not> passes_as_specified env this state ev c) cs))
       \<and> (\<exists>n. guard_calls (StateNode_next env this cache state ev) = guards_of (take n cs))"
proof -
  define P where "P = passes_as_specified env this state ev"
  define pre where "pre = takeWhile (\<lambda>c. \<not> P c) cs"
  define rest where "rest = dropWhile (\<lambda>c. \<not> P c) cs"
  have pre: "\<forall>c \<in> set pre. \<not> candidate_passes env this state ev c \<and> \<not> guard_throws env this state ev c"
    using assms(3) unfolding pre_def P_def
    by (auto dest: set_takeWhileD simp: passes_as_specified_iff)
  have cs: "cs = pre @ rest"
    by (simp add: pre_def rest_def)
  have split: "select_candidate env this state ev cs =
      (guards_of pre @ fst (select_candidate env this state ev rest),
       snd (select_candidate env this state ev rest))"
    using select_prefix[OF pre, of rest] cs by simp
  have find: "List.find P cs = (case rest of [] \<Rightarrow> None | x # _ \<Rightarrow> Some x)"
    using find_dropWhile[of P cs] by (simp add: comp_def rest_def)
  have calls: "guard_calls (StateNode_next env this cache state ev)
      = fst (select_candidate env this state ev cs)"
    by (rule next_unfold(1)[OF assms(1,2)])
  have third: "\<exists>n. guard_calls (StateNode_next env this cache state ev) = guards_of (take n cs)"
    using calls select_calls_prefix[of env this state ev cs] by simp
  have goal: "(case List.find P cs of
            None \<Rightarrow> returned (StateNode_next env this cache state ev) = Inr None
          | Some c \<Rightarrow> (\<exists>r. returned (StateNode_next env this cache state ev) = Inr (Some r)
                          \<and> transitions r = [c]))
       \<and> guard_calls (StateNode_next env this cache state ev) = guards_of (pre @ take 1 rest)"
  proof (cases rest)
    case Nil
    then have sel: "select_candidate env this state ev cs = (guards_of pre, Inr ([], [], None))"
      using split by simp
    then have "snd (select_candidate env this state ev cs) = Inr ([], [], None)"
      by simp
    then have "returned (StateNode_next env this cache state ev) = Inr None"
      by (rule next_unfold(3)[OF assms(1,2)])
    moreover have "guard_calls (StateNode_next env this cache state ev) = guards_of (pre @ take 1 rest)"
      using calls sel Nil by simp
    ultimately show ?thesis
      using find Nil by simp
  next
    case (Cons c post)
    have "P (hd rest)"
      using hd_dropWhile[of "\<lambda>c. \<not> P c" cs] Cons unfolding rest_def by auto
    then have "candidate_passes env this state ev c"
      using Cons by (simp add: P_def passes_as_specified_iff)
    then have sel: "select_candidate env this state ev cs =
        (guards_of pre @ guards_of [c],
         Inr ((case target c of Some t \<Rightarrow> t | None \<Rightarrow> []), actions c, Some c))"
      using split Cons select_passing[of env this state ev c post] by simp
    then have "snd (select_candidate env this state ev cs)
        = Inr ((case target c of Some t \<Rightarrow> t | None \<Rightarrow> []), actions c, Some c)"
      by simp
    from next_unfold(4)[OF assms(1,2) this]
    have "\<exists>r. returned (StateNode_next env this cache state ev) = Inr (Some r) \<and> transitions r = [c]"
      by simp
    moreover have "guard_calls (StateNode_next env this cache state ev) = guards_of (pre @ take 1 rest)"
      using calls sel Cons by (simp add: guards_of_append)
    ultimately show ?thesis
      using find Cons by simp
  qed
  from goal third show ?thesis
    unfolding P_def pre_def rest_def by simp
qed

lemmas sample_passing = passes_as_specified_def guard_holds_def guard_throws_def
  in_condition_holds_def two_levels_above_def sample_eval_guard sample_guard_def
  sample_transition_defs

theorem next_selects_first_passing_candidate_witness:
  "(\<exists>r. returned (StateNode_next sample_collaborators toggle_idle Map.empty state_at_idle
                    (sample_event ''GO'')) = Inr (Some r)
        \<and> transitions r = [go_taken])
   \<and> guard_calls (StateNode_next sample_collaborators toggle_idle Map.empty state_at_idle
                    (sample_event ''GO''))
       = [sample_guard ''g0'' (Inr True), sample_guard ''g1'' (Inr False),
          sample_guard ''g2'' (Inr True)]"
proof -
  have in_elsewhere: "\<not> in_condition_holds sample_collaborators toggle_idle state_at_idle go_elsewhere"
    by (simp add: in_condition_holds_def go_elsewhere_def sample_collaborators_def
          state_at_idle_def)
  have in_idle: "in_condition_holds sample_collaborators toggle_idle state_at_idle go_taken"
    by (simp add: in_condition_holds_def go_taken_def sample_collaborators_def
          state_at_idle_def)
  have p0: "\<not> passes_as_specified sample_collaborators toggle_idle state_at_idle
                (sample_event ''GO'') go_elsewhere"
    using in_elsewhere by (simp add: passes_as_specified_def)
  have p1: "\<not> passes_as_specified sample_collaborators toggle_idle state_at_idle
                (sample_event ''GO'') go_refused"
    by (simp add: passes_as_specified_def guard_holds_def sample_eval_guard sample_guard_def
          go_refused_def)
  have p2: "passes_as_specified sample_collaborators toggle_idle state_at_idle
                (sample_event ''GO'') go_taken"
    using in_idle
    by (simp add: passes_as_specified_def guard_holds_def sample_eval_guard sample_guard_def
          go_taken_def)
  have h3: "\<forall>c \<in> set (takeWhile
                (\<lambda>c. \<not> passes_as_specified sample_collaborators toggle_idle state_at_idle
                        (sample_event ''GO'') c)
                [go_elsewhere, go_refused, go_taken, go_late]).
             \<not> guard_throws sample_collaborators toggle_idle state_at_idle (sample_event ''GO'') c"
    by (simp add: p0 p1 p2)
       (simp add: guard_throws_def sample_eval_guard sample_guard_def go_elsewhere_def
          go_refused_def)
  from next_selects_first_passing_candidate[OF sample_not_history sample_candidates_GO h3]
  show ?thesis
    by (simp add: p0 p1 p2 guards_of_Cons)
       (simp add: sample_transition_defs)
qed

text \<open>
  C1 as stated fails in three ways. In the first instance every node has a candidate
  without guard or in-condition for every event: at the history node with a recorded
  configuration the candidate passes, yet \<open>next\<close> returns the recorded configuration and
  selects nothing. On \<open>BOOM\<close> the first candidate does not pass and the second does, yet
  \<open>next\<close> raises the error of the first candidate's guard. For the event \<open>toString\<close>
  the candidate passes, yet \<open>next\<close> raises a \<open>TypeError\<close>.
\<close>
theorem first_passing_candidate_counterexample:
  "List.find (passes_as_specified open_collaborators history_node state_with_history
                (sample_event ''GO''))
      (getCandidates open_collaborators history_node ''GO'') = Some (open_transition ''GO'')
   \<and> returned (StateNode_next open_collaborators history_node Map.empty state_with_history
                 (sample_event ''GO''))
       = Inr (Some \<lparr>transitions = [], configuration = [toggle_idle, toggle_active],
                     entrySet = [], exitSet = [], source = state_with_history,
                     actions_out = []\<rparr>)
   \<and> List.find (passes_as_specified sample_collaborators toggle_idle state_at_idle
                  (sample_event ''BOOM''))
        (getCandidates sample_collaborators toggle_idle ''BOOM'') = Some boom_open
   \<and> returned (StateNode_next sample_collaborators toggle_idle Map.empty state_at_idle
                 (sample_event ''BOOM''))
       = Inl (Error (guard_error_message (sample_guard ''g4'' (Inl (ThrownMessage ''broken'')))
                       ''BOOM'' ''toggle.idle'' ''broken''))
   \<and> List.find (passes_as_specified open_collaborators toggle_idle state_at_idle
                  (sample_event ''toString''))
        (getCandidates open_collaborators toggle_idle ''toString'')
       = Some (open_transition ''toString'')
   \<and> returned (StateNode_next open_collaborators toggle_idle Map.empty state_at_idle
                 (sample_event ''toString''))
       = Inl TypeError"
proof -
  have a1: "List.find (passes_as_specified open_collaborators history_node state_with_history
                (sample_event ''GO''))
      (getCandidates open_collaborators history_node ''GO'') = Some (open_transition ''GO'')"
    by (simp add: open_collaborators_def sample_collaborators_def open_transition_def
          passes_as_specified_def guard_holds_def in_condition_holds_def)
  have a2: "returned (StateNode_next open_collaborators history_node Map.empty state_with_history
                 (sample_event ''GO''))
       = Inr (Some \<lparr>transitions = [], configuration = [toggle_idle, toggle_active],
                     entrySet = [], exitSet = [], source = state_with_history,
                     actions_out = []\<rparr>)"
    by (simp add: StateNode_next_def history_node_eval state_with_history_def)
  have b1: "List.find (passes_as_specified sample_collaborators toggle_idle state_at_idle
                  (sample_event ''BOOM''))
        (getCandidates sample_collaborators toggle_idle ''BOOM'') = Some boom_open"
    by (simp add: sample_collaborators_def toggle_idle_eval sample_transitions_def
          sample_transition_defs passes_as_specified_def guard_holds_def in_condition_holds_def
          sample_guard_def state_at_idle_def)
  have b2: "returned (StateNode_next sample_collaborators toggle_idle Map.empty state_at_idle
                 (sample_event ''BOOM''))
       = Inl (Error (guard_error_message (sample_guard ''g4'' (Inl (ThrownMessage ''broken'')))
                       ''BOOM'' ''toggle.idle'' ''broken''))"
    by (simp add: next_eval sample_collaborators_def sample_transitions_def
          sample_transition_defs sample_guard_def)
       (simp add: toggle_idle_eval)
  have c1: "List.find (passes_as_specified open_collaborators toggle_idle state_at_idle
                  (sample_event ''toString''))
        (getCandidates open_collaborators toggle_idle ''toString'')
       = Some (open_transition ''toString'')"
    by (simp add: open_collaborators_def sample_collaborators_def open_transition_def
          passes_as_specified_def guard_holds_def in_condition_holds_def)
  have c2: "returned (StateNode_next open_collaborators toggle_idle Map.empty state_at_idle
                 (sample_event ''toString''))
       = Inl TypeError"
    by (simp add: next_eval toggle_idle_eval)
  from a1 a2 b1 b2 c1 c2 show ?thesis
    by simp
qed

text \<open>
  C3. If the guard of a candidate reached by the selection throws, \<open>next\<close> raises: no
  result is returned, and selection does not go on (no guard of a later candidate is
  invoked, whatever the later candidates are). When the value thrown has a message, the
  error raised is an \<open>Error\<close> whose message names the guard (its name, or its type when
  the name is absent or empty), the event's name and the node's id, followed by that
  message. When the value thrown is \<open>null\<close> or \<open>undefined\<close>, the error raised is the
  \<open>TypeError\<close> of reading its message, which names none of them; when its message cannot
  be read, the error of that read.
\<close>
theorem throwing_guard_aborts_resolution:
  assumes "\<not> history_recorded this state"
    and "candidates_for env this cache ev = Inr (pre @ c # post)"
    and "\<forall>d \<in> set pre. \<not> passes_as_specified env this state ev d
                        \<and> \<not> guard_throws env this state ev d"
    and "cond c = Some g"
    and "evaluateGuard env this g (state_context state) ev state = Inl thrown"
  shows "returned (StateNode_next env this cache state ev) =
           Inl (case thrown of
                  ThrownNullish \<Rightarrow> TypeError
                | ThrownMessage msg \<Rightarrow>
                    Error (''Unable to evaluate guard '' @ [CHR 0x27]
                      @ or_else (guard_name g) (guard_type g) @ [CHR 0x27]
                      @ '' in transition for event '' @ [CHR 0x27] @ name ev @ [CHR 0x27]
                      @ '' in state node '' @ [CHR 0x27] @ node_id this @ [CHR 0x27] @ '':''
                      @ [CHR 0x0A] @ msg)
                | ThrownUnreadable e \<Rightarrow> e)
       \<and> guard_calls (StateNode_next env this cache state ev) = guards_of pre @ [g]"
proof -
  have pre: "\<forall>d \<in> set pre. \<not> candidate_passes env this state ev d
                           \<and> \<not> guard_throws env this state ev d"
    using assms(3) by (simp add: passes_as_specified_iff)
  have sel: "select_candidate env this state ev (pre @ c # post) =
      (guards_of pre @ [g], Inl (catch_clause g (name ev) (node_id this) thrown))"
    using select_prefix[OF pre, of "c # post"] select_throwing[OF assms(4,5), of post]
    by simp
  then have "snd (select_candidate env this state ev (pre @ c # post))
      = Inl (catch_clause g (name ev) (node_id this) thrown)"
    by simp
  from next_unfold(2)[OF assms(1,2) this] next_unfold(1)[OF assms(1,2)] sel
  show ?thesis
    by (simp add: catch_clause_def guard_error_message_def split: Thrown.splits)
qed

theorem throwing_guard_aborts_resolution_witness:
  "returned (StateNode_next sample_collaborators toggle_idle Map.empty state_at_idle
               (sample_event ''BOOM''))
     = Inl (Error (''Unable to evaluate guard '' @ [CHR 0x27] @ ''g4'' @ [CHR 0x27]
                   @ '' in transition for event '' @ [CHR 0x27] @ ''BOOM'' @ [CHR 0x27]
                   @ '' in state node '' @ [CHR 0x27] @ ''toggle.idle'' @ [CHR 0x27] @ '':''
                   @ [CHR 0x0A] @ ''broken''))
   \<and> guard_calls (StateNode_next sample_collaborators toggle_idle Map.empty state_at_idle
                    (sample_event ''BOOM''))
     = [sample_guard ''g4'' (Inl (ThrownMessage ''broken''))]
   \<and> returned (StateNode_next null_collaborators toggle_idle Map.empty state_at_idle
                 (sample_event ''NULL''))
     = Inl TypeError
   \<and> guard_calls (StateNode_next null_collaborators toggle_idle Map.empty state_at_idle
                    (sample_event ''NULL''))
     = [sample_guard ''gn'' (Inl ThrownNullish)]"
proof -
  have none_before: "\<forall>d \<in> set []. \<not> passes_as_specified env toggle_idle state_at_idle ev d
              \<and> \<not> guard_throws env toggle_idle state_at_idle ev d" for env ev
    by simp
  have boom_guard: "cond boom_guarded = Some (sample_guard ''g4'' (Inl (ThrownMessage ''broken'')))"
    by (simp add: boom_guarded_def)
  have boom_throws: "evaluateGuard sample_collaborators toggle_idle
              (sample_guard ''g4'' (Inl (ThrownMessage ''broken'')))
              (state_context state_at_idle) (sample_event ''BOOM'') state_at_idle
            = Inl (ThrownMessage ''broken'')"
    by (simp add: sample_eval_guard sample_guard_def)
  have null_guard: "cond null_guard_transition = Some (sample_guard ''gn'' (Inl ThrownNullish))"
    by (simp add: null_guard_transition_def)
  have null_throws: "evaluateGuard null_collaborators toggle_idle
              (sample_guard ''gn'' (Inl ThrownNullish))
              (state_context state_at_idle) (sample_event ''NULL'') state_at_idle
            = Inl ThrownNullish"
    by (simp add: null_collaborators_def sample_eval_guard sample_guard_def)
  from throwing_guard_aborts_resolution[OF sample_not_history sample_candidates_BOOM none_before
         boom_guard boom_throws]
       throwing_guard_aborts_resolution[OF sample_not_history null_candidates none_before
         null_guard null_throws]
  show ?thesis
    by (simp add: sample_guard_def or_else_def sample_event_def toggle_idle_eval)
qed

text \<open>
  C10. The guard of a candidate reached by the selection is invoked also when the
  candidate's in-condition is false; if it throws, the whole resolution is aborted with
  the error of the guard's \<open>catch\<close> clause, although the in-condition alone would have
  excluded the candidate.
\<close>
theorem guard_invoked_despite_false_in_condition:
  assumes "\<not> history_recorded this state"
    and "candidates_for env this cache ev = Inr (pre @ c # post)"
    and "\<forall>d \<in> set pre. \<not> candidate_passes env this state ev d \<and> \<not> guard_throws env this state ev d"
    and "\<not> isInState env this state c"
    and "cond c = Some g"
  shows "(\<exists>later. guard_calls (StateNode_next env this cache state ev) = guards_of pre @ g # later)
       \<and> (\<forall>thrown. evaluateGuard env this g (state_context state) ev state = Inl thrown \<longrightarrow>
             returned (StateNode_next env this cache state ev) =
               Inl (catch_clause g (name ev) (node_id this) thrown))"
proof -
  have split: "select_candidate env this state ev (pre @ c # post) =
      (guards_of pre @ fst (select_candidate env this state ev (c # post)),
       snd (select_candidate env this state ev (c # post)))"
    using select_prefix[OF assms(3), of "c # post"] by simp
  obtain calls r where tg: "try_guard env this state ev c = (calls, r)"
    by (cases "try_guard env this state ev c")
  have calls: "calls = [g]"
    using try_guard_calls[of env this state ev c] tg assms(5) by (simp add: guards_of_Cons)
  have "\<exists>later. fst (select_candidate env this state ev (c # post)) = g # later"
    using tg calls by (auto split: sum.splits prod.splits)
  then have first: "\<exists>later. guard_calls (StateNode_next env this cache state ev) = guards_of pre @ g # later"
    using next_unfold(1)[OF assms(1,2)] split by auto
  have second: "returned (StateNode_next env this cache state ev) =
      Inl (catch_clause g (name ev) (node_id this) thrown)"
    if "evaluateGuard env this g (state_context state) ev state = Inl thrown" for thrown
  proof -
    have "snd (select_candidate env this state ev (pre @ c # post))
        = Inl (catch_clause g (name ev) (node_id this) thrown)"
      using split select_throwing[OF assms(5) that, of post] by simp
    from next_unfold(2)[OF assms(1,2) this] show ?thesis .
  qed
  from first second show ?thesis by blast
qed

theorem guard_invoked_despite_false_in_condition_witness:
  "(\<exists>later. guard_calls (StateNode_next sample_collaborators toggle_idle Map.empty state_at_idle
                    (sample_event ''BOOM''))
      = sample_guard ''g4'' (Inl (ThrownMessage ''broken'')) # later)
   \<and> returned (StateNode_next sample_collaborators toggle_idle Map.empty state_at_idle
               (sample_event ''BOOM''))
     = Inl (Error (guard_error_message (sample_guard ''g4'' (Inl (ThrownMessage ''broken'')))
                     ''BOOM'' ''toggle.idle'' ''broken''))"
proof -
  have h3: "\<forall>d \<in> set []. \<not> candidate_passes sample_collaborators toggle_idle state_at_idle
                 (sample_event ''BOOM'') d
              \<and> \<not> guard_throws sample_collaborators toggle_idle state_at_idle
                    (sample_event ''BOOM'') d"
    by simp
  have h4: "\<not> isInState sample_collaborators toggle_idle state_at_idle boom_guarded"
    by (simp add: isInState_def value_truthy_def sample_collaborators_def state_at_idle_def
          boom_guarded_def)
  have h5: "cond boom_guarded = Some (sample_guard ''g4'' (Inl (ThrownMessage ''broken'')))"
    by (simp add: boom_guarded_def)
  have e: "evaluateGuard sample_collaborators toggle_idle
              (sample_guard ''g4'' (Inl (ThrownMessage ''broken'')))
              (state_context state_at_idle) (sample_event ''BOOM'') state_at_idle
            = Inl (ThrownMessage ''broken'')"
    by (simp add: sample_eval_guard sample_guard_def)
  from guard_invoked_despite_false_in_condition[OF sample_not_history sample_candidates_BOOM h3 h4 h5] e
  show ?thesis
    by (simp add: catch_clause_def sample_event_def toggle_idle_eval)
qed

text \<open>
  C5. When the selected candidate has no targets (\<open>target\<close> is \<open>undefined\<close> or empty),
  the result has an empty entry set and an empty exit set, its actions are the
  candidate's actions, and its configuration is \<open>[N]\<close> when the prior state's value is
  truthy (and empty otherwise): the node is not re-entered.
\<close>
theorem targetless_transition_result:
  assumes "returned (StateNode_next env this cache state ev) = Inr (Some r)"
    and "transitions r = [t]"
    and "target t = None \<or> target t = Some []"
  shows "entrySet r = [] \<and> exitSet r = [] \<and> actions_out r = actions t
       \<and> configuration r = (if value_truthy (state_value state) then [this] else [])"
proof -
  from next_selected[OF assms(1,2)] obtain cs where
    nh: "\<not> history_recorded this state"
    and cs: "candidates_for env this cache ev = Inr cs"
    and sel: "snd (select_candidate env this state ev cs)
           = Inr ((case target t of Some ts \<Rightarrow> ts | None \<Rightarrow> []), actions t, Some t)"
    by blast
  from next_unfold(4)[OF nh cs sel] assms(1,3) show ?thesis
    by auto
qed

theorem targetless_transition_result_witness:
  "entrySet (the (projr (returned (StateNode_next sample_collaborators toggle_idle Map.empty
                                     state_at_idle (sample_event ''PING''))))) = []
   \<and> exitSet (the (projr (returned (StateNode_next sample_collaborators toggle_idle Map.empty
                                     state_at_idle (sample_event ''PING''))))) = []
   \<and> actions_out (the (projr (returned (StateNode_next sample_collaborators toggle_idle Map.empty
                                     state_at_idle (sample_event ''PING''))))) = [''log'']
   \<and> configuration (the (projr (returned (StateNode_next sample_collaborators toggle_idle
                                     Map.empty state_at_idle (sample_event ''PING'')))))
       = [toggle_idle]"
proof -
  let ?r = "\<lparr>transitions = [ping_transition], configuration = [toggle_idle], entrySet = [],
             exitSet = [], source = state_at_idle, actions_out = [''log'']\<rparr>"
  have h2: "transitions ?r = [ping_transition]" by simp
  have h3: "target ping_transition = None \<or> target ping_transition = Some []"
    by (simp add: ping_transition_def)
  from targetless_transition_result[OF sample_next_PING h2 h3]
  show ?thesis
    by (simp add: sample_next_PING)
qed

subsection \<open>Entry and exit sets\<close>

lemma toggle_chains:
  "chain_to toggle_machine toggle_idle = [toggle_machine, toggle_idle]"
  "chain_to toggle_machine toggle_active = [toggle_machine, toggle_active]"
  by (simp_all add: toggle_machine_eval toggle_idle_eval toggle_active_eval Let_def)

lemma toggle_nodes_on_path:
  "nodes_on_path toggle_machine toggle_idle toggle_active = [toggle_active]"
  "nodes_on_path toggle_machine toggle_idle toggle_idle = [toggle_idle]"
  unfolding nodes_on_path_def toggle_chains
  by (simp_all add: toggle_machine_eval toggle_idle_eval toggle_active_eval)

lemma toggle_leaves: "type toggle_idle = Atomic" "type toggle_active = Atomic"
  by (simp_all add: toggle_idle_eval toggle_active_eval)

text \<open>
  C4. With the expansion of targets and the nodes to enter as the specification describes
  them: whenever \<open>next\<close> returns a result with a selected transition, if the transition
  is marked internal, the entry set and the exit set are empty; if it is not and it has
  targets, the configuration is the concatenation of the expansions of the targets, the
  exit set is \<open>[N]\<close>, and the entry set is the concatenation, over the resolved nodes of
  the configuration, of the nodes on the path from \<open>N\<close> down to that node. In particular,
  in the machine \<open>toggle\<close>, where the candidates of \<open>idle\<close> for \<open>START\<close> are the one
  transition targeting \<open>active\<close>, \<open>next\<close> at \<open>idle\<close> on \<open>START\<close> yields the
  configuration \<open>[active]\<close>, the exit set \<open>[idle]\<close> and the entry set \<open>[active]\<close>.
\<close>
theorem targeted_transition_entry_exit:
  "(\<forall>r t. returned (StateNode_next (as_specified root env) this cache state ev) = Inr (Some r)
           \<and> transitions r = [t] \<longrightarrow>
      (internal t \<longrightarrow> entrySet r = [] \<and> exitSet r = [])
      \<and> (\<forall>ts. \<not> internal t \<and> target t = Some ts \<and> ts \<noteq> [] \<longrightarrow>
            configuration r =
              flatten (map (\<lambda>n. expand_target (getRelativeStateNodes env) n state) ts)
            \<and> exitSet r = [this]
            \<and> entrySet r = flatten (map (nodes_on_path root this) (configuration r))))
   \<and> (getCandidates env toggle_idle ''START'' = [start_transition] \<longrightarrow>
        returned (StateNode_next (as_specified toggle_machine env) toggle_idle Map.empty state
                    \<lparr>name = ''START'', data = d\<rparr>)
          = Inr (Some \<lparr>transitions = [start_transition], configuration = [toggle_active],
                        entrySet = [toggle_active], exitSet = [toggle_idle], source = state,
                        actions_out = []\<rparr>))"
proof -
  have general: "(internal t \<longrightarrow> entrySet r = [] \<and> exitSet r = [])
      \<and> (\<forall>ts. \<not> internal t \<and> target t = Some ts \<and> ts \<noteq> [] \<longrightarrow>
            configuration r =
              flatten (map (\<lambda>n. expand_target (getRelativeStateNodes env) n state) ts)
            \<and> exitSet r = [this]
            \<and> entrySet r = flatten (map (nodes_on_path root this) (configuration r)))"
    if sel_r: "returned (StateNode_next (as_specified root env) this cache state ev) = Inr (Some r)"
      and sel_t: "transitions r = [t]" for r t
  proof -
    from next_selected[OF sel_r sel_t] obtain cs where
      nh: "\<not> history_recorded this state"
      and cs: "candidates_for (as_specified root env) this cache ev = Inr cs"
      and sel: "snd (select_candidate (as_specified root env) this state ev cs)
             = Inr ((case target t of Some ts \<Rightarrow> ts | None \<Rightarrow> []), actions t, Some t)"
      by blast
    from next_unfold(4)[OF nh cs sel] sel_r show ?thesis
      by (auto simp: as_specified_def split: if_splits)
  qed
  have example: "returned (StateNode_next (as_specified toggle_machine env) toggle_idle Map.empty
                    state \<lparr>name = ''START'', data = d\<rparr>)
          = Inr (Some \<lparr>transitions = [start_transition], configuration = [toggle_active],
                        entrySet = [toggle_active], exitSet = [toggle_idle], source = state,
                        actions_out = []\<rparr>)"
    if cands: "getCandidates env toggle_idle ''START'' = [start_transition]"
  proof -
    let ?env = "as_specified toggle_machine env"
    let ?ev = "\<lparr>name = ''START'', data = d\<rparr>"
    have nh: "\<not> history_recorded toggle_idle state"
      by (simp add: history_recorded_def toggle_leaves)
    have cs: "candidates_for ?env toggle_idle Map.empty ?ev = Inr [start_transition]"
      using cands
      by (simp add: candidates_for_def Object_prototype_names_def as_specified_def)
    have "candidate_passes ?env toggle_idle state ?ev start_transition"
      by (simp add: candidate_passes_def guard_holds_def isInState_def start_transition_def)
    from select_passing[OF this, of "[]"]
    have "snd (select_candidate ?env toggle_idle state ?ev [start_transition])
        = Inr ([toggle_active], [], Some start_transition)"
      by (simp add: start_transition_def)
    from next_unfold(4)[OF nh cs this] show ?thesis
      by (simp add: start_transition_def as_specified_def expand_target_def flatten_def
            toggle_leaves toggle_nodes_on_path)
  qed
  from general example show ?thesis
    by blast
qed

theorem targeted_transition_entry_exit_witness:
  "returned (StateNode_next (as_specified toggle_machine sample_collaborators) toggle_idle
               Map.empty state_at_idle \<lparr>name = ''START'', data = ()\<rparr>)
     = Inr (Some \<lparr>transitions = [start_transition], configuration = [toggle_active],
                   entrySet = [toggle_active], exitSet = [toggle_idle], source = state_at_idle,
                   actions_out = []\<rparr>)
   \<and> exitSet (the (projr (returned (StateNode_next
        (as_specified toggle_machine sample_collaborators) toggle_idle Map.empty state_at_idle
        (sample_event ''GO''))))) = [toggle_idle]
   \<and> entrySet (the (projr (returned (StateNode_next
        (as_specified toggle_machine sample_collaborators) toggle_idle Map.empty state_at_idle
        (sample_event ''GO''))))) = [toggle_idle]
   \<and> entrySet (the (projr (returned (StateNode_next
        (as_specified toggle_machine sample_collaborators) toggle_idle Map.empty state_at_idle
        (sample_event ''PING''))))) = []
   \<and> exitSet (the (projr (returned (StateNode_next
        (as_specified toggle_machine sample_collaborators) toggle_idle Map.empty state_at_idle
        (sample_event ''PING''))))) = []"
proof -
  let ?env = "as_specified toggle_machine sample_collaborators"
  have h: "getCandidates sample_collaborators toggle_idle ''START'' = [start_transition]"
    by (simp add: sample_collaborators_def toggle_idle_eval sample_transitions_def
          sample_transition_defs)
  from targeted_transition_entry_exit[of toggle_machine sample_collaborators _ _ state_at_idle _ "()"] h
  have start: "returned (StateNode_next ?env toggle_idle Map.empty state_at_idle
               \<lparr>name = ''START'', data = ()\<rparr>)
     = Inr (Some \<lparr>transitions = [start_transition], configuration = [toggle_active],
                   entrySet = [toggle_active], exitSet = [toggle_idle], source = state_at_idle,
                   actions_out = []\<rparr>)"
    by blast
  let ?rgo = "the (projr (returned (StateNode_next ?env toggle_idle Map.empty
                                      state_at_idle (sample_event ''GO''))))"
  have go_next: "returned (StateNode_next ?env toggle_idle Map.empty state_at_idle
                   (sample_event ''GO''))
      = Inr (Some \<lparr>transitions = [go_taken], configuration = [toggle_idle],
                    entrySet = [toggle_idle], exitSet = [toggle_idle], source = state_at_idle,
                    actions_out = [''a2'']\<rparr>)"
    by (simp add: next_eval as_specified_def expand_target_def sample_collaborators_def
          sample_transitions_def sample_transition_defs sample_guard_def toggle_leaves
          toggle_nodes_on_path)
       (simp add: toggle_idle_eval)
  have go_sel: "returned (StateNode_next ?env toggle_idle Map.empty state_at_idle
                 (sample_event ''GO'')) = Inr (Some ?rgo) \<and> transitions ?rgo = [go_taken]"
    by (simp add: go_next)
  have go_t: "\<not> internal go_taken \<and> target go_taken = Some [toggle_idle] \<and> [toggle_idle] \<noteq> []"
    by (simp add: go_taken_def)
  from targeted_transition_entry_exit[of toggle_machine sample_collaborators toggle_idle Map.empty
         state_at_idle "sample_event ''GO''"] go_sel go_t
  have "configuration ?rgo
          = flatten (map (\<lambda>n. expand_target (getRelativeStateNodes sample_collaborators) n
                                 state_at_idle) [toggle_idle])
      \<and> exitSet ?rgo = [toggle_idle]
      \<and> entrySet ?rgo = flatten (map (nodes_on_path toggle_machine toggle_idle)
                                   (configuration ?rgo))"
    by blast
  then have go: "exitSet ?rgo = [toggle_idle] \<and> entrySet ?rgo = [toggle_idle]"
    by (simp add: flatten_def expand_target_def toggle_leaves toggle_nodes_on_path)
  let ?rping = "the (projr (returned (StateNode_next ?env toggle_idle Map.empty
                                      state_at_idle (sample_event ''PING''))))"
  have ping_next: "returned (StateNode_next ?env toggle_idle Map.empty state_at_idle
                   (sample_event ''PING''))
      = Inr (Some \<lparr>transitions = [ping_transition], configuration = [toggle_idle],
                    entrySet = [], exitSet = [], source = state_at_idle,
                    actions_out = [''log'']\<rparr>)"
    by (simp add: next_eval as_specified_def sample_collaborators_def toggle_idle_eval
          sample_transitions_def sample_transition_defs)
  have ping_sel: "returned (StateNode_next ?env toggle_idle Map.empty state_at_idle
                 (sample_event ''PING'')) = Inr (Some ?rping) \<and> transitions ?rping = [ping_transition]"
    by (simp add: ping_next)
  have ping_t: "internal ping_transition"
    by (simp add: ping_transition_def)
  from targeted_transition_entry_exit[of toggle_machine sample_collaborators toggle_idle Map.empty
         state_at_idle "sample_event ''PING''"] ping_sel ping_t
  have ping: "entrySet ?rping = [] \<and> exitSet ?rping = []"
    by blast
  from start go ping show ?thesis
    by simp
qed

section \<open>The id lookup built by the constructor\<close>

lemma obj_set_keys: "fst ` set (obj_set m k v) = insert k (fst ` set m)"
  by (induction m k v rule: obj_set.induct) auto

lemma obj_set_distinct: "distinct (map fst m) \<Longrightarrow> distinct (map fst (obj_set m k v))"
proof (induction m k v rule: obj_set.induct)
  case (1 k v)
  then show ?case by simp
next
  case (2 k' v' kvs k v)
  then show ?case
    using obj_set_keys[of kvs k v] by auto
qed

lemma obj_set_entries: "set (obj_set m k v) \<subseteq> insert (k, v) (set m)"
  by (induction m k v rule: obj_set.induct) auto

lemma literal_keys:
  "fst ` set (fold (\<lambda>(k, v) literal. obj_set literal k v) s t) = fst ` set t \<union> fst ` set s"
proof (induction s arbitrary: t)
  case Nil
  then show ?case by simp
next
  case (Cons kv s)
  obtain k v where kv: "kv = (k, v)" by (cases kv)
  have "fst ` set (fold (\<lambda>(k, v) t. obj_set t k v) s (obj_set t k v))
      = fst ` set (obj_set t k v) \<union> fst ` set s"
    by (rule Cons.IH)
  then show ?case
    unfolding kv by (simp add: obj_set_keys)
qed

lemma literal_entries:
  "set (fold (\<lambda>(k, v) literal. obj_set literal k v) s t) \<subseteq> set t \<union> set s"
proof (induction s arbitrary: t)
  case Nil
  then show ?case by simp
next
  case (Cons kv s)
  obtain k v where kv: "kv = (k, v)" by (cases kv)
  have "set (fold (\<lambda>(k, v) t. obj_set t k v) s (obj_set t k v)) \<subseteq> set (obj_set t k v) \<union> set s"
    by (rule Cons.IH)
  then show ?case
    using obj_set_entries[of t k v] kv by auto
qed

lemma idMap_source_keys:
  "fst ` set (idMap_source c) = insert (node_id c) (fst ` set (idMap c))"
  by (simp add: idMap_source_def literal_keys)

lemma idMap_source_entries:
  "set (idMap_source c) \<subseteq> insert (node_id c, c) (set (idMap c))"
  using literal_entries[of "idMap c" "[(node_id c, c)]"] by (simp add: idMap_source_def)

lemma keys_step:
  "B = A \<union> (X - P) \<Longrightarrow> C = B \<union> (U - P) \<Longrightarrow> C = A \<union> ((X \<union> U) - P)"
  by auto

lemma entries_step:
  "C \<subseteq> B \<union> E \<Longrightarrow> B \<subseteq> A \<union> S \<Longrightarrow> S \<subseteq> X \<Longrightarrow> C \<subseteq> A \<union> (X \<union> E)"
  by auto

text \<open>
  An assignment that does not raise adds the key unless it is \<open>__proto__\<close>, which is
  never an own key of the target.
\<close>

lemma assign_property_result:
  assumes "assign_property (p, own) (k, v) = Inr (p', own')"
    and "''__proto__'' \<notin> fst ` set own"
  shows "fst ` set own' = fst ` set own \<union> ({k} - {''__proto__''})"
    and "distinct (map fst own) \<Longrightarrow> distinct (map fst own')"
    and "set own' \<subseteq> insert (k, v) (set own)"
proof -
  have cases: "(own' = own \<and> k = ''__proto__'') \<or> (own' = obj_set own k v \<and> k \<noteq> ''__proto__'')"
  proof (cases "k \<in> fst ` set own")
    case True
    have "k \<noteq> ''__proto__''"
    proof
      assume "k = ''__proto__''"
      with True assms(2) show False by simp
    qed
    moreover from assms(1) True have "own' = obj_set own k v"
      by (simp add: assign_property_def)
    ultimately show ?thesis by simp
  next
    case False
    show ?thesis
    proof (cases "k = ''__proto__''")
      case True
      with assms(1) False have "own' = own"
        by (simp add: assign_property_def)
      with True show ?thesis by simp
    next
      case not_proto: False
      with assms(1) False have "own' = obj_set own k v"
        by (simp add: assign_property_def split: if_splits)
      with not_proto show ?thesis by simp
    qed
  qed
  then show "fst ` set own' = fst ` set own \<union> ({k} - {''__proto__''})"
    by (elim disjE conjE) (simp_all add: obj_set_keys insert_Diff_if)
  from cases show "distinct (map fst own) \<Longrightarrow> distinct (map fst own')"
    by (elim disjE conjE) (simp_all add: obj_set_distinct)
  from cases show "set own' \<subseteq> insert (k, v) (set own)"
    using obj_set_entries[of own k v] by (elim disjE conjE) (simp_all add: subset_insertI)
qed

lemma Object_assign_result:
  assumes "Object_assign (p, own) src = Inr (p', own')"
    and "''__proto__'' \<notin> fst ` set own"
  shows "fst ` set own' = fst ` set own \<union> (fst ` set src - {''__proto__''})
       \<and> (distinct (map fst own) \<longrightarrow> distinct (map fst own'))
       \<and> set own' \<subseteq> set own \<union> set src"
  using assms
proof (induction src arbitrary: p own)
  case Nil
  then show ?case by simp
next
  case (Cons kv src)
  obtain k v where kv: "kv = (k, v)" by (cases kv)
  from Cons.prems(1) obtain p1 own1 where
    step: "assign_property (p, own) (k, v) = Inr (p1, own1)"
    and rest: "Object_assign (p1, own1) src = Inr (p', own')"
    unfolding kv by (auto split: sum.splits)
  note one = assign_property_result[OF step Cons.prems(2)]
  from one(1) Cons.prems(2) have free: "''__proto__'' \<notin> fst ` set own1"
    by simp
  from Cons.IH[OF rest free]
  have keys: "fst ` set own' = fst ` set own1 \<union> (fst ` set src - {''__proto__''})"
    and dist: "distinct (map fst own1) \<longrightarrow> distinct (map fst own')"
    and entries: "set own' \<subseteq> set own1 \<union> set src"
    by simp_all
  have "fst ` set own' = fst ` set own \<union> (({k} \<union> fst ` set src) - {''__proto__''})"
    using one(1) keys by (rule keys_step)
  moreover have "distinct (map fst own) \<longrightarrow> distinct (map fst own')"
    using one(2) dist by simp
  moreover have "set own' \<subseteq> set own \<union> ({(k, v)} \<union> set src)"
    using entries one(3) by auto
  ultimately show ?case
    unfolding kv by simp
qed

lemma merge_children_result:
  assumes "merge_children built (sts0, p0, im0) = Inr (sts, p, im)"
    and "''__proto__'' \<notin> fst ` set im0"
  shows "\<exists>children. sts = sts0 @ children
           \<and> built = map (\<lambda>(k, c). (k, Inr c)) children
           \<and> fst ` set im = fst ` set im0
                \<union> ((\<Union>(k, c) \<in> set children. insert (node_id c) (fst ` set (idMap c)))
                    - {''__proto__''})
           \<and> (distinct (map fst im0) \<longrightarrow> distinct (map fst im))
           \<and> set im \<subseteq> set im0
                \<union> (\<Union>(k, c) \<in> set children. insert (node_id c, c) (set (idMap c)))"
  using assms
proof (induction built arbitrary: sts0 p0 im0)
  case Nil
  then have "sts = sts0" and "im = im0"
    by simp_all
  then show ?case
    by (intro exI[of _ "[]"]) simp
next
  case (Cons kb built)
  obtain k b where kb: "kb = (k, b)" by (cases kb)
  from Cons.prems(1) have merged:
    "(case b of
        Inl e \<Rightarrow> Inl e
      | Inr stateNode \<Rightarrow>
          (case Object_assign (p0, im0) (idMap_source stateNode) of
             Inl e \<Rightarrow> Inl e
           | Inr this_idMap' \<Rightarrow> merge_children built (sts0 @ [(k, stateNode)], this_idMap')))
     = Inr (sts, p, im)"
    unfolding kb by simp
  then obtain c where b: "b = Inr c"
    by (cases b) simp_all
  with merged obtain assigned where
    step': "Object_assign (p0, im0) (idMap_source c) = Inr assigned"
    and rest': "merge_children built (sts0 @ [(k, c)], assigned) = Inr (sts, p, im)"
    by (cases "Object_assign (p0, im0) (idMap_source c)") simp_all
  obtain p1 im1 where assigned: "assigned = (p1, im1)"
    by (cases assigned)
  note step = step'[unfolded assigned] and rest = rest'[unfolded assigned]
  from Object_assign_result[OF step Cons.prems(2)]
  have keys1: "fst ` set im1 = fst ` set im0 \<union> (fst ` set (idMap_source c) - {''__proto__''})"
    and distinct1: "distinct (map fst im0) \<longrightarrow> distinct (map fst im1)"
    and entries1: "set im1 \<subseteq> set im0 \<union> set (idMap_source c)"
    by simp_all
  from keys1 Cons.prems(2) have free: "''__proto__'' \<notin> fst ` set im1"
    by simp
  from Cons.IH[OF rest free] obtain children where
    sts: "sts = (sts0 @ [(k, c)]) @ children"
    and built: "built = map (\<lambda>(k, c). (k, Inr c)) children"
    and keys: "fst ` set im = fst ` set im1
                \<union> ((\<Union>(k, c) \<in> set children. insert (node_id c) (fst ` set (idMap c)))
                    - {''__proto__''})"
    and dist: "distinct (map fst im1) \<longrightarrow> distinct (map fst im)"
    and entries: "set im \<subseteq> set im1
                \<union> (\<Union>(k, c) \<in> set children. insert (node_id c, c) (set (idMap c)))"
    by (elim exE conjE)
  show ?case
  proof (intro exI[of _ "(k, c) # children"] conjI)
    show "sts = sts0 @ ((k, c) # children)"
      using sts by simp
    show "kb # built = map (\<lambda>(k, c). (k, Inr c)) ((k, c) # children)"
      using built kb b by simp
    show "fst ` set im = fst ` set im0
                \<union> ((\<Union>(k, c) \<in> set ((k, c) # children). insert (node_id c) (fst ` set (idMap c)))
                    - {''__proto__''})"
      using keys_step[OF keys1 keys] by (simp add: idMap_source_keys)
    show "distinct (map fst im0) \<longrightarrow> distinct (map fst im)"
      using dist distinct1 by simp
    show "set im \<subseteq> set im0
                \<union> (\<Union>(k, c) \<in> set ((k, c) # children). insert (node_id c, c) (set (idMap c)))"
      using entries_step[OF entries entries1 idMap_source_entries[of c]] by simp
  qed
qed

lemma descendants_set:
  "set (descendants n) = (\<Union>(k, c) \<in> set (states n). insert c (set (descendants c)))"
  by (cases n) auto

lemma idMap_ok_from_children:
  assumes d: "distinct (map fst (idMap n))"
    and keys: "fst ` set (idMap n)
        = (\<Union>(k, c) \<in> set (states n). insert (node_id c) (fst ` set (idMap c))) - {''__proto__''}"
    and sub: "set (idMap n) \<subseteq> (\<Union>(k, c) \<in> set (states n). insert (node_id c, c) (set (idMap c)))"
    and children: "\<forall>(k, c) \<in> set (states n). idMap_ok c"
  shows "idMap_ok n"
proof -
  have child_keys: "fst ` set (idMap c) = node_id ` set (descendants c) - {''__proto__''}"
    if "(k, c) \<in> set (states n)" for k c
  proof -
    from that children have "idMap_ok c"
      by blast
    then show ?thesis
      by (simp add: idMap_ok_def)
  qed
  have keys': "fst ` set (idMap n) = node_id ` set (descendants n) - {''__proto__''}"
  proof -
    have u: "(\<Union>(k, c) \<in> set (states n). insert (node_id c) (fst ` set (idMap c)))
        = (\<Union>(k, c) \<in> set (states n).
              insert (node_id c) (node_id ` set (descendants c) - {''__proto__''}))"
    proof (rule SUP_cong[OF refl])
      fix x assume x: "x \<in> set (states n)"
      obtain k c where kc: "x = (k, c)" by (cases x)
      from child_keys[of k c] x kc
      show "(case x of (k, c) \<Rightarrow> insert (node_id c) (fst ` set (idMap c)))
          = (case x of (k, c) \<Rightarrow>
               insert (node_id c) (node_id ` set (descendants c) - {''__proto__''}))"
        by simp
    qed
    show ?thesis
      unfolding keys u descendants_set[of n] by auto
  qed
  have entries: "\<forall>(k, v) \<in> set (idMap n). v \<in> set (descendants n) \<and> node_id v = k"
  proof (clarify)
    fix k v assume "(k, v) \<in> set (idMap n)"
    with sub obtain key c where c: "(key, c) \<in> set (states n)"
      and e: "(k, v) = (node_id c, c) \<or> (k, v) \<in> set (idMap c)"
      by auto
    from c children have okc: "idMap_ok c" by auto
    from e show "v \<in> set (descendants n) \<and> node_id v = k"
    proof
      assume "(k, v) = (node_id c, c)"
      with c show ?thesis unfolding descendants_set[of n] by auto
    next
      assume "(k, v) \<in> set (idMap c)"
      with okc have "v \<in> set (descendants c) \<and> node_id v = k"
        by (auto simp: idMap_ok_def)
      with c show ?thesis unfolding descendants_set[of n] by auto
    qed
  qed
  from d keys' entries show ?thesis by (simp add: idMap_ok_def)
qed

text \<open>What the constructor returns when it returns.\<close>

lemma new_StateNode_result:
  assumes "new_StateNode D cfg opts = Inr n"
  shows "\<exists>f. map (\<lambda>(k, c). (k, Inr c)) (states n) =
           (case cfg_states cfg of
              Some ss \<Rightarrow> map (\<lambda>(k, stateConfig). (k, new_StateNode D stateConfig (f k))) ss
            | None \<Rightarrow> [])"
    and "distinct (map fst (idMap n))"
    and "fst ` set (idMap n)
        = (\<Union>(k, c) \<in> set (states n). insert (node_id c) (fst ` set (idMap c))) - {''__proto__''}"
    and "set (idMap n) \<subseteq> (\<Union>(k, c) \<in> set (states n). insert (node_id c, c) (set (idMap c)))"
    and "initial n = cfg_initial cfg"
    and "key n = or_else (cfg_key cfg) (opt_key opts)"
    and "node_id n = or_else (cfg_id cfg)
           (join (or_else (cfg_delimiter cfg) D) (machine_key n # path n))"
    and "merge_children (map (\<lambda>(k, c). (k, Inr c)) (states n)) ([], None, [])
           = Inr (states n, idMap_proto n, idMap n)"
proof -
  obtain ck ci cd ct cinit cs ch where cfg: "cfg = StateNodeConfig ck ci cd ct cinit cs ch"
    by (cases cfg)
  define built where "built =
     (case cs of
        Some ss \<Rightarrow> mapValues ss (\<lambda>stateConfig k. new_StateNode D stateConfig
            \<lparr>opt_key = k,
             opt_parent = Some \<lparr>parent_machine_key =
                                   (case opt_parent opts of
                                      Some p \<Rightarrow> parent_machine_key p | None \<Rightarrow> or_else ck (opt_key opts)),
                                 parent_machine_delimiter =
                                   (case opt_parent opts of
                                      Some p \<Rightarrow> parent_machine_delimiter p | None \<Rightarrow> None),
                                 parent_path =
                                   (case opt_parent opts of
                                      Some p \<Rightarrow> parent_path p @ [or_else ck (opt_key opts)]
                                    | None \<Rightarrow> [])\<rparr>\<rparr>)
      | None \<Rightarrow> [])"
  from assms have "\<exists>sts p im.
      merge_children built ([], None, []) = Inr (sts, p, im)
      \<and> states n = sts \<and> idMap n = im \<and> idMap_proto n = p \<and> initial n = cinit
      \<and> key n = or_else ck (opt_key opts)
      \<and> machine_key n = (case opt_parent opts of
                     Some p \<Rightarrow> parent_machine_key p | None \<Rightarrow> or_else ck (opt_key opts))
      \<and> path n = (case opt_parent opts of
                     Some p \<Rightarrow> parent_path p @ [or_else ck (opt_key opts)] | None \<Rightarrow> [])
      \<and> node_id n = or_else ci
                     (join (or_else cd D)
                        ((case opt_parent opts of
                            Some p \<Rightarrow> parent_machine_key p | None \<Rightarrow> or_else ck (opt_key opts))
                         # (case opt_parent opts of
                              Some p \<Rightarrow> parent_path p @ [or_else ck (opt_key opts)]
                            | None \<Rightarrow> [])))"
    unfolding cfg built_def
    by (auto simp: Let_def split: sum.splits prod.splits cong: option.case_cong)
  then obtain sts p im where
    merged: "merge_children built ([], None, []) = Inr (sts, p, im)"
    and fields: "states n = sts" "idMap n = im" "idMap_proto n = p" "initial n = cinit"
      "key n = or_else ck (opt_key opts)"
      "machine_key n = (case opt_parent opts of
                     Some p \<Rightarrow> parent_machine_key p | None \<Rightarrow> or_else ck (opt_key opts))"
      "path n = (case opt_parent opts of
                     Some p \<Rightarrow> parent_path p @ [or_else ck (opt_key opts)] | None \<Rightarrow> [])"
      "node_id n = or_else ci
                     (join (or_else cd D)
                        ((case opt_parent opts of
                            Some p \<Rightarrow> parent_machine_key p | None \<Rightarrow> or_else ck (opt_key opts))
                         # (case opt_parent opts of
                              Some p \<Rightarrow> parent_path p @ [or_else ck (opt_key opts)]
                            | None \<Rightarrow> [])))"
    by (elim exE conjE)
  have free: "''__proto__'' \<notin> fst ` set ([] :: (string \<times> StateNode) list)"
    by simp
  from merge_children_result[OF merged free] obtain children where
    sts: "sts = children"
    and built: "built = map (\<lambda>(k, c). (k, Inr c)) children"
    and keys: "fst ` set im
        = (\<Union>(k, c) \<in> set children. insert (node_id c) (fst ` set (idMap c))) - {''__proto__''}"
    and dist: "distinct (map fst im)"
    and entries: "set im \<subseteq> (\<Union>(k, c) \<in> set children. insert (node_id c, c) (set (idMap c)))"
    by auto
  show "\<exists>f. map (\<lambda>(k, c). (k, Inr c)) (states n) =
           (case cfg_states cfg of
              Some ss \<Rightarrow> map (\<lambda>(k, stateConfig). (k, new_StateNode D stateConfig (f k))) ss
            | None \<Rightarrow> [])"
  proof (cases cs)
    case None
    with built sts show ?thesis
      by (simp add: fields built_def cfg)
  next
    case (Some ss)
    with built sts show ?thesis
      unfolding built_def fields cfg mapValues_def
      by (intro exI[of _ "\<lambda>k. \<lparr>opt_key = k, opt_parent = Some
            \<lparr>parent_machine_key =
               (case opt_parent opts of
                  Some p \<Rightarrow> parent_machine_key p | None \<Rightarrow> or_else ck (opt_key opts)),
             parent_machine_delimiter =
               (case opt_parent opts of
                  Some p \<Rightarrow> parent_machine_delimiter p | None \<Rightarrow> None),
             parent_path =
               (case opt_parent opts of
                  Some p \<Rightarrow> parent_path p @ [or_else ck (opt_key opts)]
                | None \<Rightarrow> [])\<rparr>\<rparr>"]) simp
  qed
  show "distinct (map fst (idMap n))"
    using dist by (simp add: fields)
  show "fst ` set (idMap n)
        = (\<Union>(k, c) \<in> set (states n). insert (node_id c) (fst ` set (idMap c))) - {''__proto__''}"
    using keys sts by (simp add: fields)
  show "set (idMap n) \<subseteq> (\<Union>(k, c) \<in> set (states n). insert (node_id c, c) (set (idMap c)))"
    using entries sts by (simp add: fields)
  show "initial n = cfg_initial cfg"
    by (simp add: fields cfg)
  show "key n = or_else (cfg_key cfg) (opt_key opts)"
    by (simp add: fields cfg)
  show "node_id n = or_else (cfg_id cfg)
           (join (or_else (cfg_delimiter cfg) D) (machine_key n # path n))"
    by (simp add: fields cfg)
  show "merge_children (map (\<lambda>(k, c). (k, Inr c)) (states n)) ([], None, [])
           = Inr (states n, idMap_proto n, idMap n)"
    using merged built sts by (simp add: fields)
qed

lemma new_StateNode_children:
  assumes "new_StateNode D cfg opts = Inr n" and "(k, c) \<in> set (states n)"
  shows "\<exists>ss sc o'. cfg_states cfg = Some ss \<and> (k, sc) \<in> set ss \<and> new_StateNode D sc o' = Inr c"
proof -
  from new_StateNode_result(1)[OF assms(1)] obtain f where
    f: "map (\<lambda>(k, c). (k, Inr c)) (states n) =
           (case cfg_states cfg of
              Some ss \<Rightarrow> map (\<lambda>(k, stateConfig). (k, new_StateNode D stateConfig (f k))) ss
            | None \<Rightarrow> [])" ..
  from assms(2)
  have "(k, Inr c) \<in> set (map (\<lambda>(k, c). (k, Inr c :: Error + StateNode)) (states n))"
    by force
  then have "(k, Inr c) \<in> set (case cfg_states cfg of
              Some ss \<Rightarrow> map (\<lambda>(k, stateConfig). (k, new_StateNode D stateConfig (f k))) ss
            | None \<Rightarrow> [])"
    by (simp only: f)
  then show ?thesis
    by (cases "cfg_states cfg") (auto intro: sym)
qed

lemma new_StateNode_keys:
  assumes "new_StateNode D cfg opts = Inr n"
  shows "map fst (states n) = (case cfg_states cfg of Some ss \<Rightarrow> map fst ss | None \<Rightarrow> [])"
proof -
  from new_StateNode_result(1)[OF assms(1)] obtain f where
    f: "map (\<lambda>(k, c). (k, Inr c)) (states n) =
           (case cfg_states cfg of
              Some ss \<Rightarrow> map (\<lambda>(k, stateConfig). (k, new_StateNode D stateConfig (f k))) ss
            | None \<Rightarrow> [])" ..
  have "map fst (states n) = map fst (map (\<lambda>(k, c). (k, Inr c :: Error + StateNode)) (states n))"
    by (simp add: comp_def case_prod_beta)
  also have "\<dots> = (case cfg_states cfg of Some ss \<Rightarrow> map fst ss | None \<Rightarrow> [])"
    unfolding f by (cases "cfg_states cfg") (simp_all add: comp_def case_prod_beta)
  finally show ?thesis .
qed

lemma new_StateNode_idMap_ok: "new_StateNode D cfg opts = Inr n \<Longrightarrow> idMap_ok n"
proof (induction cfg arbitrary: opts n)
  case (StateNodeConfig ck ci cd ct cinit cs ch)
  note built = StateNodeConfig.prems
  have "\<forall>(k, c) \<in> set (states n). idMap_ok c"
  proof (clarify)
    fix k c
    assume "(k, c) \<in> set (states n)"
    from new_StateNode_children[OF built this]
    obtain ss sc o' where "cs = Some ss" "(k, sc) \<in> set ss" "new_StateNode D sc o' = Inr c"
      by auto
    then show "idMap_ok c"
      using StateNodeConfig.IH[of ss "(k, sc)" sc o' c] by simp
  qed
  with new_StateNode_result(2,3,4)[OF built] show ?case
    by (rule idMap_ok_from_children)
qed

text \<open>The only error that the constructor raises is the \<open>TypeError\<close> of an assignment.\<close>

lemma Object_assign_error: "Object_assign tgt src = Inl e \<Longrightarrow> e = TypeError"
proof (induction src arbitrary: tgt)
  case Nil
  then show ?case by simp
next
  case (Cons kv src)
  obtain p own where t: "tgt = (p, own)" by (cases tgt)
  obtain k v where kv: "kv = (k, v)" by (cases kv)
  from Cons show ?case
    unfolding t kv by (auto simp: assign_property_def split: sum.splits if_splits)
qed

lemma merge_children_error:
  assumes "merge_children built acc = Inl e"
    and "\<forall>(k, b) \<in> set built. b = Inl e \<longrightarrow> e = TypeError"
  shows "e = TypeError"
  using assms
proof (induction built arbitrary: acc)
  case Nil
  then show ?case by simp
next
  case (Cons kb built)
  obtain k b where kb: "kb = (k, b)" by (cases kb)
  obtain sts this_idMap where acc: "acc = (sts, this_idMap)" by (cases acc)
  from Cons.prems show ?case
    unfolding kb acc
    by (auto split: sum.splits dest: Object_assign_error Cons.IH)
qed

lemma new_StateNode_error: "new_StateNode D cfg opts = Inl e \<Longrightarrow> e = TypeError"
proof (induction cfg arbitrary: opts)
  case (StateNodeConfig ck ci cd ct cinit cs ch)
  show ?case
  proof (cases cs)
    case None
    with StateNodeConfig.prems show ?thesis
      by (simp add: Let_def)
  next
    case (Some ss)
    define self where "self = \<lparr>parent_machine_key =
                                   (case opt_parent opts of
                                      Some p \<Rightarrow> parent_machine_key p | None \<Rightarrow> or_else ck (opt_key opts)),
                                 parent_machine_delimiter =
                                   (case opt_parent opts of
                                      Some p \<Rightarrow> parent_machine_delimiter p | None \<Rightarrow> None),
                                 parent_path =
                                   (case opt_parent opts of
                                      Some p \<Rightarrow> parent_path p @ [or_else ck (opt_key opts)]
                                    | None \<Rightarrow> [])\<rparr>"
    define built where "built = mapValues ss (\<lambda>stateConfig k. new_StateNode D stateConfig
            \<lparr>opt_key = k, opt_parent = Some self\<rparr>)"
    from StateNodeConfig.prems Some have merged: "merge_children built ([], None, []) = Inl e"
      unfolding built_def self_def
      by (auto simp: Let_def split: sum.splits prod.splits cong: option.case_cong)
    have "\<forall>(k, b) \<in> set built. b = Inl e \<longrightarrow> e = TypeError"
    proof (clarify)
      fix k assume "(k, Inl e) \<in> set built"
      then obtain sc where "(k, sc) \<in> set ss"
        and "new_StateNode D sc \<lparr>opt_key = k, opt_parent = Some self\<rparr> = Inl e"
        by (auto simp: built_def mapValues_def)
      then show "e = TypeError"
        using StateNodeConfig.IH[of ss "(k, sc)" sc "\<lparr>opt_key = k, opt_parent = Some self\<rparr>"] Some
        by simp
    qed
    with merged show ?thesis
      by (rule merge_children_error)
  qed
qed

text \<open>
  The prototype of the lookup is replaced only by the assignment of the key
  \<open>__proto__\<close>.
\<close>

lemma assign_property_proto:
  "assign_property (p, own) (k, v) = Inr (p', own') \<Longrightarrow> k \<noteq> ''__proto__'' \<Longrightarrow> p' = p"
  by (auto simp: assign_property_def split: if_splits)

lemma Object_assign_proto:
  assumes "Object_assign (p, own) src = Inr (p', own')"
    and "''__proto__'' \<notin> fst ` set src"
  shows "p' = p"
  using assms
proof (induction src arbitrary: p own)
  case Nil
  then show ?case by simp
next
  case (Cons kv src)
  obtain k v where kv: "kv = (k, v)" by (cases kv)
  from Cons.prems(1) obtain assigned where
    step': "assign_property (p, own) (k, v) = Inr assigned"
    and rest': "Object_assign assigned src = Inr (p', own')"
    unfolding kv by (cases "assign_property (p, own) (k, v)") simp_all
  obtain p1 own1 where assigned: "assigned = (p1, own1)"
    by (cases assigned)
  from Cons.prems(2) have k: "k \<noteq> ''__proto__''" and src: "''__proto__'' \<notin> fst ` set src"
    unfolding kv by auto
  from assign_property_proto[OF step'[unfolded assigned] k]
       Cons.IH[OF rest'[unfolded assigned] src]
  show ?case by simp
qed

lemma merge_children_proto:
  assumes "merge_children (map (\<lambda>(k, c). (k, Inr c)) children) (sts0, p0, im0) = Inr (sts, p, im)"
    and "\<forall>(k, c) \<in> set children. ''__proto__'' \<notin> fst ` set (idMap_source c)"
  shows "p = p0"
  using assms
proof (induction children arbitrary: sts0 p0 im0)
  case Nil
  then show ?case by simp
next
  case (Cons kc children)
  obtain k c where kc: "kc = (k, c)" by (cases kc)
  from Cons.prems(1) obtain assigned where
    step': "Object_assign (p0, im0) (idMap_source c) = Inr assigned"
    and rest': "merge_children (map (\<lambda>(k, c). (k, Inr c)) children) (sts0 @ [(k, c)], assigned)
                  = Inr (sts, p, im)"
    unfolding kc by (cases "Object_assign (p0, im0) (idMap_source c)") simp_all
  obtain p1 im1 where assigned: "assigned = (p1, im1)"
    by (cases assigned)
  from Cons.prems(2) have c: "''__proto__'' \<notin> fst ` set (idMap_source c)"
    and others: "\<forall>(k, c) \<in> set children. ''__proto__'' \<notin> fst ` set (idMap_source c)"
    unfolding kc by simp_all
  from Object_assign_proto[OF step'[unfolded assigned] c]
       Cons.IH[OF rest'[unfolded assigned] others]
  show ?case by simp
qed

lemma new_StateNode_proto:
  assumes "new_StateNode D cfg opts = Inr n"
    and "\<forall>(k, c) \<in> set (states n). ''__proto__'' \<notin> fst ` set (idMap_source c)"
  shows "idMap_proto n = None"
  using merge_children_proto[OF new_StateNode_result(8)[OF assms(1)] assms(2)] .

text \<open>
  The constructor does raise: with a first child of id \<open>__proto__\<close> and a second of id
  \<open>events\<close>, the second assignment meets the getter \<open>events\<close> of the first child.
\<close>

lemma constructor_raises:
  "new_StateNode ''.'' proto_events_config (root_options ''m'') = Inl TypeError"
  by (simp add: proto_events_config_def constructor_eval)

lemma toggle_descendants: "descendants toggle_machine = [toggle_idle, toggle_active]"
  by (simp add: toggle_machine_eval toggle_idle_eval toggle_active_eval)

lemma toggle_idMap:
  "idMap toggle_machine = [(''toggle.idle'', toggle_idle), (''toggle.active'', toggle_active)]"
  by (simp add: toggle_machine_eval toggle_idle_eval toggle_active_eval)

text \<open>
  C8, as amended. For every node that the constructor returns, the lookup \<open>idMap\<close> has
  distinct keys and every entry maps its key to a descendant of the node whose id is that
  key (the node itself is not entered in its own lookup). When no descendant has the id
  \<open>__proto__\<close>, the keys are exactly the ids of the descendants and the lookup keeps
  the prototype of a plain object; when, moreover, the ids of the descendants are pairwise
  distinct, which construction does not enforce, the lookup has exactly one entry per
  descendant and each descendant is read under its id.
\<close>
theorem idMap_holds_the_descendants:
  "\<forall>n. new_StateNode D cfg opts = Inr n \<longrightarrow>
     distinct (map fst (idMap n))
     \<and> (\<forall>(k, v) \<in> set (idMap n). v \<in> set (descendants n) \<and> node_id v = k)
     \<and> (''__proto__'' \<notin> node_id ` set (descendants n) \<longrightarrow>
           fst ` set (idMap n) = node_id ` set (descendants n)
           \<and> idMap_proto n = None
           \<and> (distinct (map node_id (descendants n)) \<longrightarrow>
                 length (idMap n) = length (descendants n)
                 \<and> (\<forall>d \<in> set (descendants n).
                       obj_get (idMap n) (node_id d) = Some (Own d))))"
proof (intro allI impI)
  fix n
  assume built: "new_StateNode D cfg opts = Inr n"
  from new_StateNode_idMap_ok[OF built]
  have d: "distinct (map fst (idMap n))"
    and keys: "fst ` set (idMap n) = node_id ` set (descendants n) - {''__proto__''}"
    and entries: "\<forall>(k, v) \<in> set (idMap n). v \<in> set (descendants n) \<and> node_id v = k"
    by (simp_all add: idMap_ok_def)
  have plain: "fst ` set (idMap n) = node_id ` set (descendants n)
           \<and> idMap_proto n = None
           \<and> (distinct (map node_id (descendants n)) \<longrightarrow>
                 length (idMap n) = length (descendants n)
                 \<and> (\<forall>d \<in> set (descendants n).
                       obj_get (idMap n) (node_id d) = Some (Own d)))"
    if no_proto: "''__proto__'' \<notin> node_id ` set (descendants n)"
  proof (intro conjI impI)
    from keys no_proto show all_keys: "fst ` set (idMap n) = node_id ` set (descendants n)"
      by simp
    have "''__proto__'' \<notin> fst ` set (idMap_source (snd x))" if x: "x \<in> set (states n)" for x
    proof
      assume "''__proto__'' \<in> fst ` set (idMap_source (snd x))"
      then have either: "''__proto__'' = node_id (snd x)
          \<or> ''__proto__'' \<in> fst ` set (idMap (snd x))"
        by (simp add: idMap_source_keys)
      from x have c: "(fst x, snd x) \<in> set (states n)"
        by simp
      from new_StateNode_children[OF built c] obtain sc o' where
        "new_StateNode D sc o' = Inr (snd x)"
        by blast
      from new_StateNode_idMap_ok[OF this] have "''__proto__'' \<notin> fst ` set (idMap (snd x))"
        by (simp add: idMap_ok_def)
      with either have "''__proto__'' = node_id (snd x)"
        by simp
      moreover from x have "snd x \<in> set (descendants n)"
        unfolding descendants_set[of n] by (auto simp: split_beta intro!: bexI[of _ x])
      ultimately have "''__proto__'' \<in> node_id ` set (descendants n)"
        by (simp only: imageI)
      with no_proto show False
        by simp
    qed
    then have "\<forall>(k, c) \<in> set (states n). ''__proto__'' \<notin> fst ` set (idMap_source c)"
      by (simp add: split_beta)
    with built show "idMap_proto n = None"
      by (rule new_StateNode_proto)
  next
    assume u: "distinct (map node_id (descendants n))"
    have all_keys: "fst ` set (idMap n) = node_id ` set (descendants n)"
      using keys no_proto by simp
    have "length (idMap n) = card (set (map fst (idMap n)))"
      using d distinct_card[of "map fst (idMap n)"] by simp
    also have "\<dots> = card (set (map node_id (descendants n)))"
      using all_keys by simp
    also have "\<dots> = length (descendants n)"
      using u distinct_card[of "map node_id (descendants n)"] by simp
    finally show "length (idMap n) = length (descendants n)" .
    show "\<forall>d \<in> set (descendants n). obj_get (idMap n) (node_id d) = Some (Own d)"
    proof
      fix x assume x: "x \<in> set (descendants n)"
      then have "node_id x \<in> fst ` set (idMap n)"
        using all_keys by simp
      then obtain v where v: "(node_id x, v) \<in> set (idMap n)"
        by auto
      with entries have "v \<in> set (descendants n)" and "node_id v = node_id x"
        by auto
      moreover have "inj_on node_id (set (descendants n))"
        using u by (simp add: distinct_map)
      ultimately have "v = x"
        using x by (auto dest: inj_onD)
      with v d show "obj_get (idMap n) (node_id x) = Some (Own x)"
        by (simp add: obj_get_def own_property_def)
    qed
  qed
  from d entries plain
  show "distinct (map fst (idMap n))
     \<and> (\<forall>(k, v) \<in> set (idMap n). v \<in> set (descendants n) \<and> node_id v = k)
     \<and> (''__proto__'' \<notin> node_id ` set (descendants n) \<longrightarrow>
           fst ` set (idMap n) = node_id ` set (descendants n)
           \<and> idMap_proto n = None
           \<and> (distinct (map node_id (descendants n)) \<longrightarrow>
                 length (idMap n) = length (descendants n)
                 \<and> (\<forall>d \<in> set (descendants n).
                       obj_get (idMap n) (node_id d) = Some (Own d))))"
    by blast
qed

theorem idMap_holds_the_descendants_witness:
  "map fst (idMap toggle_machine) = [''toggle.idle'', ''toggle.active'']
   \<and> idMap_proto toggle_machine = None
   \<and> length (idMap toggle_machine) = length (descendants toggle_machine)
   \<and> obj_get (idMap toggle_machine) (node_id toggle_idle) = Some (Own toggle_idle)
   \<and> obj_get (idMap toggle_machine) (node_id toggle_active) = Some (Own toggle_active)"
proof -
  have built: "new_StateNode ''.'' toggle_config (root_options ''toggle'') = Inr toggle_machine"
    by (simp add: toggle_machine_built toggle_machine_eval)
  have no_proto: "''__proto__'' \<notin> node_id ` set (descendants toggle_machine)"
    by (simp add: toggle_descendants toggle_idle_eval toggle_active_eval)
  have u: "distinct (map node_id (descendants toggle_machine))"
    by (simp add: toggle_descendants toggle_idle_eval toggle_active_eval)
  from idMap_holds_the_descendants[of "''.''" toggle_config "root_options ''toggle''"]
       built no_proto u
  have "idMap_proto toggle_machine = None
      \<and> length (idMap toggle_machine) = length (descendants toggle_machine)
      \<and> (\<forall>d \<in> set (descendants toggle_machine).
             obj_get (idMap toggle_machine) (node_id d) = Some (Own d))"
    by blast
  then show ?thesis
    by (simp add: toggle_descendants toggle_idMap)
qed

text \<open>
  The lookup of the root of \<open>toggle\<close> has no entry for the root: two entries for three
  nodes. With two children configured with the same id \<open>x\<close>, the ids of the tree are not
  unique and the lookup has one entry for the two children. With a child configured with
  the id \<open>__proto__\<close>, the lookup has no entry for that child, which has become its
  prototype.
\<close>
theorem idMap_entry_per_node_counterexample:
  "obj_get (idMap toggle_machine) (node_id toggle_machine) = None
   \<and> length (toggle_machine # descendants toggle_machine) = 3
   \<and> length (idMap toggle_machine) = 2
   \<and> map_sum id (\<lambda>n. (map node_id (descendants n), map fst (idMap n)))
         (new_StateNode ''.'' twin_config (root_options ''m''))
       = Inr ([''x'', ''x''], [''x''])
   \<and> map_sum id (\<lambda>n. (map node_id (descendants n), map fst (idMap n),
                          map_option node_id (idMap_proto n)))
         (new_StateNode ''.'' proto_config (root_options ''m''))
       = Inr ([''__proto__'', ''m.b''], [''m.b''], Some ''__proto__'')"
proof -
  have toggle: "obj_get (idMap toggle_machine) (node_id toggle_machine) = None
      \<and> length (toggle_machine # descendants toggle_machine) = 3
      \<and> length (idMap toggle_machine) = 2"
    by (simp add: toggle_descendants toggle_idMap)
       (simp add: toggle_machine_eval obj_get_def own_property_def Object_prototype_names_def)
  have twin: "map_sum id (\<lambda>n. (map node_id (descendants n), map fst (idMap n)))
         (new_StateNode ''.'' twin_config (root_options ''m''))
       = Inr ([''x'', ''x''], [''x''])"
    by (simp add: twin_config_def constructor_eval)
  have proto: "map_sum id (\<lambda>n. (map node_id (descendants n), map fst (idMap n),
                          map_option node_id (idMap_proto n)))
         (new_StateNode ''.'' proto_config (root_options ''m''))
       = Inr ([''__proto__'', ''m.b''], [''m.b''], Some ''__proto__'')"
    by (simp add: proto_config_def constructor_eval)
  from toggle twin proto show ?thesis
    by simp
qed

section \<open>Derived ids and the delimiter\<close>

text \<open>
  The id of every node, root or not, is the configured id or the machine's key and the
  path joined with the node's own configured delimiter, else the default one.
\<close>

lemma node_id_derivation:
  "new_StateNode D cfg opts = Inr n \<Longrightarrow>
   node_id n =
     or_else (cfg_id cfg) (join (or_else (cfg_delimiter cfg) D) (machine_key n # path n))"
  by (rule new_StateNode_result(7))

text \<open>
  C7 at two inputs, for any default delimiter \<open>D\<close>. With the delimiter \<open>/\<close> configured
  on the root, the ids of the descendants are joined with the default delimiter, not with
  \<open>/\<close>; with the delimiter \<open>-\<close> configured on a child, the child's id is joined with
  it. \<open>isMachine\<close> is true for every node, so the branch reading
  \<open>this.machine.delimiter\<close> is never taken.
\<close>
theorem descendant_ids_use_own_delimiter:
  "map_sum id (\<lambda>n. map node_id (descendants n))
       (new_StateNode D slash_config (root_options ''m''))
     = Inr [''m'' @ D @ ''a'', ''m'' @ D @ ''a'' @ D @ ''b'']
   \<and> map_sum id (\<lambda>n. map node_id (descendants n))
       (new_StateNode D dash_child_config (root_options ''m''))
     = Inr [''m-a'', ''m'' @ D @ ''a'' @ D @ ''b'']"
  by (simp add: slash_config_def dash_child_config_def constructor_eval)

section \<open>The event vocabulary\<close>

lemma set_Set_add: "set (Set_add s x) = insert x (set s)"
  by (auto simp: Set_add_def)

lemma distinct_Set_add: "distinct s \<Longrightarrow> distinct (Set_add s x)"
  by (simp add: Set_add_def)

lemma set_fold_Set_add: "set (fold (\<lambda>x s. Set_add s x) xs acc) = set acc \<union> set xs"
  by (induction xs arbitrary: acc) (auto simp: set_Set_add)

lemma distinct_fold_Set_add: "distinct acc \<Longrightarrow> distinct (fold (\<lambda>x s. Set_add s x) xs acc)"
  by (induction xs arbitrary: acc) (auto simp: distinct_Set_add)

lemma set_Set_new: "set (Set_new xs) = set xs"
  by (simp add: Set_new_def set_fold_Set_add)

lemma distinct_Set_new: "distinct (Set_new xs)"
  by (simp add: Set_new_def distinct_fold_Set_add)

lemma set_fold_children_events:
  "set (fold (\<lambda>(stateId, state) evs. fold (\<lambda>event evs. Set_add evs event) (g state) evs)
          children acc)
     = set acc \<union> (\<Union>(k, c) \<in> set children. set (g c))"
proof (induction children arbitrary: acc)
  case Nil
  then show ?case by simp
next
  case (Cons kc children)
  obtain k c where kc: "kc = (k, c)" by (cases kc)
  show ?case
    unfolding kc using Cons.IH[of "fold (\<lambda>event evs. Set_add evs event) (g c) acc"]
    by (auto simp: set_fold_Set_add)
qed

lemma distinct_fold_children_events:
  "distinct acc \<Longrightarrow>
   distinct (fold (\<lambda>(stateId, state) evs. fold (\<lambda>event evs. Set_add evs event) (g state) evs)
               children acc)"
proof (induction children arbitrary: acc)
  case Nil
  then show ?case by simp
next
  case (Cons kc children)
  obtain k c where kc: "kc = (k, c)" by (cases kc)
  show ?case
    unfolding kc
    using Cons.IH[of "fold (\<lambda>event evs. Set_add evs event) (g c) acc"]
      distinct_fold_Set_add[OF Cons.prems, of "g c"]
    by simp
qed

lemma events_unfold:
  "events env n =
     fold (\<lambda>(stateId, state) evs. fold (\<lambda>event evs. Set_add evs event) (events env state) evs)
       (states n) (Set_new (ownEvents env n))"
  by (cases n) (simp add: Let_def object_truthy_def)

lemma sample_ownEvents_idle:
  "ownEvents sample_collaborators toggle_idle = [''START'', ''GO'', ''PING'', ''BOOM'']"
  by (simp add: ownEvents_def transitions_of_def sample_collaborators_def toggle_idle_eval
        sample_transitions_def sample_transition_defs Set_new_def Set_add_def)

text \<open>
  C9, as the code has it. The events of a node are its own events together with the
  events of every child, a leaf child included: \<open>state.states\<close> on line 547 is always an
  object (the mapped children or \<open>EMPTY_OBJECT\<close>), hence truthy. The list has no
  duplicates.
\<close>
theorem events_of_node_and_all_children:
  "set (events env n) =
     set (ownEvents env n) \<union> (\<Union>(k, child) \<in> set (states n). set (events env child))
   \<and> distinct (events env n)"
proof -
  have "set (events env n) =
      set (Set_new (ownEvents env n)) \<union> (\<Union>(k, child) \<in> set (states n). set (events env child))"
    by (subst events_unfold) (rule set_fold_children_events)
  moreover have "distinct (events env n)"
    by (subst events_unfold) (rule distinct_fold_children_events[OF distinct_Set_new])
  ultimately show ?thesis
    by (simp add: set_Set_new)
qed

text \<open>
  In \<open>toggle\<close> both children are atomic and have no substates, the root has no
  transitions of its own, and the events of the root are those of the leaf \<open>idle\<close>.
\<close>
theorem leaf_child_events_counterexample:
  "events sample_collaborators toggle_machine = [''START'', ''GO'', ''PING'', ''BOOM'']
   \<and> ownEvents sample_collaborators toggle_machine = []
   \<and> map (\<lambda>(k, child). (type child, states child)) (states toggle_machine)
       = [(Atomic, []), (Atomic, [])]"
proof -
  have own: "ownEvents sample_collaborators toggle_machine = []"
    by (simp add: ownEvents_def transitions_of_def sample_collaborators_def toggle_machine_eval
          Set_new_def)
  have active: "ownEvents sample_collaborators toggle_active = []"
    by (simp add: ownEvents_def transitions_of_def sample_collaborators_def toggle_active_eval
          Set_new_def)
  have st: "states toggle_machine = [(''idle'', toggle_idle), (''active'', toggle_active)]"
    by (simp add: toggle_machine_eval toggle_idle_eval toggle_active_eval)
  have leaves: "states toggle_idle = []" "states toggle_active = []"
    by (simp_all add: toggle_idle_eval toggle_active_eval)
  have idle: "events sample_collaborators toggle_idle = [''START'', ''GO'', ''PING'', ''BOOM'']"
    by (subst events_unfold) (simp add: sample_ownEvents_idle leaves Set_new_def Set_add_def)
  have act: "events sample_collaborators toggle_active = []"
    by (subst events_unfold) (simp add: active leaves Set_new_def)
  have "events sample_collaborators toggle_machine = [''START'', ''GO'', ''PING'', ''BOOM'']"
    by (subst events_unfold) (simp add: st own idle act Set_new_def Set_add_def)
  then show ?thesis
    using own by (simp add: st toggle_idle_eval toggle_active_eval)
qed

section \<open>The initial child key\<close>

lemma initialStateValue_no_initial:
  "type n \<noteq> Parallel \<Longrightarrow> initial n = None \<Longrightarrow> initialStateValue env n = Inr None"
  by (cases n) simp

lemma initialStateValue_missing_child:
  "type n \<noteq> Parallel \<Longrightarrow> initial n = Some init \<Longrightarrow> obj_get (states n) init = None \<Longrightarrow>
   initialStateValue env n =
     Inl (Error (''Initial state '' @ [CHR 0x27] @ init @ [CHR 0x27]
                 @ '' not found on '' @ [CHR 0x27] @ key n @ [CHR 0x27]))"
  by (cases n) simp

lemma no_initial_built:
  "new_StateNode ''.'' no_initial_config (root_options ''m'') = Inr
     (StateNode ''m'' ''m'' Compound [] None
       [(''a'', StateNode ''a'' ''m.a'' Atomic [''a''] None [] NoHistory [] None ''m'' leaf_config)]
       NoHistory
       [(''m.a'', StateNode ''a'' ''m.a'' Atomic [''a''] None [] NoHistory [] None ''m'' leaf_config)]
       None ''m'' no_initial_config)"
  by (simp add: no_initial_config_def constructor_eval)

lemma missing_child_built:
  "new_StateNode ''.'' missing_child_config (root_options ''m'') = Inr
     (StateNode ''m'' ''m'' Compound [] (Some ''zz'')
       [(''a'', StateNode ''a'' ''m.a'' Atomic [''a''] None [] NoHistory [] None ''m'' leaf_config)]
       NoHistory
       [(''m.a'', StateNode ''a'' ''m.a'' Atomic [''a''] None [] NoHistory [] None ''m'' leaf_config)]
       None ''m'' missing_child_config)"
  by (simp add: missing_child_config_def constructor_eval)

lemma inherited_initial_built:
  "new_StateNode ''.'' inherited_initial_config (root_options ''m'') = Inr
     (StateNode ''m'' ''m'' Atomic [] (Some ''toString'') [] NoHistory [] None ''m''
        inherited_initial_config)"
  by (simp add: inherited_initial_config_def constructor_eval)

text \<open>
  C6, as amended. The constructor raises no configuration error, whatever the initial
  key, and the node it returns stores the configured initial key unchecked. For such a
  node that is not parallel, \<open>initialStateValue\<close> is \<open>undefined\<close>, and no error is
  raised, when no initial key is configured; and reading it raises the error
  \<open>Initial state '...' not found on '...'\<close> when the initial key names neither a child
  of the node nor a member that every object inherits.
\<close>
theorem initial_key_checked_on_access:
  "(\<forall>message. new_StateNode D cfg opts \<noteq> Inl (Error message))
   \<and> (\<forall>n. new_StateNode D cfg opts = Inr n \<longrightarrow>
        initial n = cfg_initial cfg
        \<and> (type n \<noteq> Parallel \<and> cfg_initial cfg = None \<longrightarrow>
             initialStateValue env n = Inr None)
        \<and> (\<forall>init. type n \<noteq> Parallel \<and> cfg_initial cfg = Some init
               \<and> init \<notin> set (case cfg_states cfg of Some ss \<Rightarrow> map fst ss | None \<Rightarrow> [])
               \<and> init \<notin> set Object_prototype_names \<longrightarrow>
             initialStateValue env n =
               Inl (Error (''Initial state '' @ [CHR 0x27] @ init @ [CHR 0x27]
                           @ '' not found on '' @ [CHR 0x27] @ key n @ [CHR 0x27]))))"
proof (intro conjI allI impI)
  fix message
  show "new_StateNode D cfg opts \<noteq> Inl (Error message)"
    using new_StateNode_error[of D cfg opts "Error message"] by auto
next
  fix n
  assume built: "new_StateNode D cfg opts = Inr n"
  show "initial n = cfg_initial cfg"
    by (rule new_StateNode_result(5)[OF built])
next
  fix n
  assume built: "new_StateNode D cfg opts = Inr n"
    and "type n \<noteq> Parallel \<and> cfg_initial cfg = None"
  then show "initialStateValue env n = Inr None"
    using new_StateNode_result(5)[OF built] by (simp add: initialStateValue_no_initial)
next
  fix n init
  assume built: "new_StateNode D cfg opts = Inr n"
    and given: "type n \<noteq> Parallel \<and> cfg_initial cfg = Some init
               \<and> init \<notin> set (case cfg_states cfg of Some ss \<Rightarrow> map fst ss | None \<Rightarrow> [])
               \<and> init \<notin> set Object_prototype_names"
  have "init \<notin> set (map fst (states n))"
    using given unfolding new_StateNode_keys[OF built] by simp
  then have "own_property (states n) init = None"
    by (simp add: own_property_def map_of_eq_None_iff)
  with given have "obj_get (states n) init = None"
    by (simp add: obj_get_def)
  with given new_StateNode_result(5)[OF built]
  show "initialStateValue env n =
          Inl (Error (''Initial state '' @ [CHR 0x27] @ init @ [CHR 0x27]
                      @ '' not found on '' @ [CHR 0x27] @ key n @ [CHR 0x27]))"
    by (simp add: initialStateValue_missing_child)
qed

theorem initial_key_checked_on_access_witness:
  "initialStateValue sample_collaborators no_initial_machine = Inr None
   \<and> initialStateValue sample_collaborators missing_child_machine
     = Inl (Error (''Initial state '' @ [CHR 0x27] @ ''zz'' @ [CHR 0x27]
                   @ '' not found on '' @ [CHR 0x27] @ ''m'' @ [CHR 0x27]))"
proof -
  have built_a: "new_StateNode ''.'' no_initial_config (root_options ''m'') = Inr no_initial_machine"
    by (simp add: no_initial_machine_def no_initial_built)
  have built_b: "new_StateNode ''.'' missing_child_config (root_options ''m'')
      = Inr missing_child_machine"
    by (simp add: missing_child_machine_def missing_child_built)
  have a: "type no_initial_machine \<noteq> Parallel \<and> cfg_initial no_initial_config = None"
    by (simp add: no_initial_machine_def no_initial_built) (simp add: no_initial_config_def)
  have b: "type missing_child_machine \<noteq> Parallel
      \<and> cfg_initial missing_child_config = Some ''zz''
      \<and> ''zz'' \<notin> set (case cfg_states missing_child_config of
                          Some ss \<Rightarrow> map fst ss | None \<Rightarrow> [])
      \<and> ''zz'' \<notin> set Object_prototype_names"
    by (simp add: missing_child_machine_def missing_child_built)
       (simp add: missing_child_config_def Object_prototype_names_def)
  from initial_key_checked_on_access[of "''.''" no_initial_config "root_options ''m''"
         sample_collaborators] built_a a
  have first: "initialStateValue sample_collaborators no_initial_machine = Inr None"
    by blast
  from initial_key_checked_on_access[of "''.''" missing_child_config "root_options ''m''"
         sample_collaborators] built_b b
  have "initialStateValue sample_collaborators missing_child_machine
     = Inl (Error (''Initial state '' @ [CHR 0x27] @ ''zz'' @ [CHR 0x27]
                   @ '' not found on '' @ [CHR 0x27] @ key missing_child_machine @ [CHR 0x27]))"
    by blast
  with first show ?thesis
    by (simp add: missing_child_machine_def missing_child_built)
qed

text \<open>
  Construction returns a compound node for a configuration with children and no initial
  key, and reading its \<open>initialStateValue\<close> raises nothing; construction also returns a
  compound node for an initial key \<open>zz\<close> that names no child. For the initial key
  \<open>toString\<close>, which names no child either, construction returns a node and reading its
  \<open>initialStateValue\<close> raises nothing.
\<close>
theorem eager_initial_validation_counterexample:
  "new_StateNode ''.'' no_initial_config (root_options ''m'') = Inr no_initial_machine
   \<and> type no_initial_machine = Compound
   \<and> initial no_initial_machine = None
   \<and> initialStateValue sample_collaborators no_initial_machine = Inr None
   \<and> new_StateNode ''.'' missing_child_config (root_options ''m'') = Inr missing_child_machine
   \<and> type missing_child_machine = Compound
   \<and> initial missing_child_machine = Some ''zz''
   \<and> map fst (states missing_child_machine) = [''a'']
   \<and> new_StateNode ''.'' inherited_initial_config (root_options ''m'')
       = Inr inherited_initial_machine
   \<and> states inherited_initial_machine = []
   \<and> initialStateValue sample_collaborators inherited_initial_machine
       = Inr (Some (SVObject [(''toString'', None)]))"
  by (simp add: no_initial_machine_def missing_child_machine_def inherited_initial_machine_def
        no_initial_built missing_child_built inherited_initial_built)
     (simp add: obj_get_def own_property_def Object_prototype_names_def sample_collaborators_def)

end
